theory Spec2Isabelle
  imports Complex_Main
begin

section \<open>Shafts and the interference predicate\<close>

text \<open>
  JavaScript numbers are modelled as exact reals: rounding, infinities and NaN of
  IEEE doubles are outside the model, with one exception. The loop of
  \<open>updateOutputMultiplier\<close> is compared by a claim with a value that the code
  computes by other operations, so there the rounding of every operation is modelled
  (\<open>fl64\<close> below). A property that is never assigned (\<open>undefined\<close>) is
  \<open>None\<close>; an exception is a value of type \<open>error\<close>.
\<close>

datatype error = TypeError | RangeError

record shaft =
  gearCount :: nat
  inputGear :: real
  outputGear :: real
  spacerSize :: real

text \<open>The constructor of class \<open>Shaft\<close>: an output gear of 0 (or less) means one gear.\<close>

definition Shaft :: "real \<Rightarrow> real \<Rightarrow> real \<Rightarrow> shaft" where
  "Shaft inGear outGear spacer =
     (if outGear > 0
      then \<lparr>gearCount = 2, inputGear = inGear, outputGear = outGear, spacerSize = spacer\<rparr>
      else \<lparr>gearCount = 1, inputGear = inGear, outputGear = inGear, spacerSize = spacer\<rparr>)"

definition shaftsInterfere :: "shaft \<Rightarrow> shaft \<Rightarrow> real \<Rightarrow> bool" where
  "shaftsInterfere input output addendum =
     (let meshingDistance = outputGear input + inputGear output;
          nonMeshingDistance = 0;
          nonMeshingDistance =
            (if gearCount input = 1 then nonMeshingDistance + spacerSize input
             else nonMeshingDistance + inputGear input);
          nonMeshingDistance =
            (if gearCount output = 1 then nonMeshingDistance + spacerSize output
             else nonMeshingDistance + outputGear output);
          nonMeshingDistance = nonMeshingDistance + 2 * addendum
      in nonMeshingDistance > meshingDistance)"

section \<open>Rounding to a double\<close>

text \<open>
  A JavaScript number is an IEEE 754 binary64 value: 53 significant bits, and every
  arithmetic operation returns the representable value nearest to the exact result,
  the one with an even last bit when two are equally near. \<open>fl64\<close> is that
  rounding for a real \<open>x\<close>: with \<open>2 ^ e \<le> |x| < 2 ^ (e + 1)\<close> the spacing of
  doubles around \<open>x\<close> is \<open>2 ^ (e - 52)\<close>, and \<open>|x|\<close> is rounded to a multiple
  of it. The exponent is found by halving or doubling. Its limits (overflow above
  \<open>2 ^ 1024\<close>, subnormal numbers below \<open>2 ^ - 1022\<close>) are not modelled: products
  of ratios of tooth counts stay far inside them.
\<close>

definition roundHalfEven :: "real \<Rightarrow> int" where
  "roundHalfEven y =
     (let f = \<lfloor>y\<rfloor>; d = y - of_int f
      in if d < 1 / 2 then f else if d > 1 / 2 then f + 1 else if even f then f else f + 1)"

function expUp :: "real \<Rightarrow> int" where
  "expUp x = (if 2 \<le> x then expUp (x / 2) + 1 else 0)"
  by pat_completeness auto
termination
proof (relation "measure (\<lambda>x. nat \<lceil>x\<rceil>)")
  show "wf (measure (\<lambda>x. nat \<lceil>x\<rceil>))" by simp
next
  fix x :: real
  assume x: "2 \<le> x"
  then have "x / 2 \<le> x - 1" by simp
  then have "\<lceil>x / 2\<rceil> \<le> \<lceil>x - 1\<rceil>" by (rule ceiling_mono)
  moreover have "0 < \<lceil>x\<rceil>" using x by (simp add: ceiling_less_iff not_le less_ceiling_iff)
  ultimately show "(x / 2, x) \<in> measure (\<lambda>x. nat \<lceil>x\<rceil>)" by simp
qed

function expDown :: "real \<Rightarrow> int" where
  "expDown x = (if 0 < x \<and> x < 1 then expDown (2 * x) - 1 else 0)"
  by pat_completeness auto
termination
proof (relation "measure (\<lambda>x. nat \<lceil>1 / x\<rceil>)")
  show "wf (measure (\<lambda>x. nat \<lceil>1 / x\<rceil>))" by simp
next
  fix x :: real
  assume x: "0 < x \<and> x < 1"
  define y where "y = 1 / x"
  have y: "1 < y" using x by (simp add: y_def)
  have h: "1 / (2 * x) = y / 2" by (simp add: y_def)
  have "\<lceil>y / 2\<rceil> < \<lceil>y\<rceil>"
  proof (cases "2 \<le> y")
    case True
    then have "y / 2 \<le> y - 1" by simp
    then have "\<lceil>y / 2\<rceil> \<le> \<lceil>y - 1\<rceil>" by (rule ceiling_mono)
    then show ?thesis by simp
  next
    case False
    then have "\<lceil>y / 2\<rceil> \<le> 1" by (simp add: ceiling_le_iff)
    moreover have "1 < \<lceil>y\<rceil>" using y by (simp add: less_ceiling_iff)
    ultimately show ?thesis by linarith
  qed
  moreover have "0 < \<lceil>y\<rceil>" using y by (simp add: less_ceiling_iff)
  ultimately show "(2 * x, x) \<in> measure (\<lambda>x. nat \<lceil>1 / x\<rceil>)"
    by (simp add: h y_def [symmetric])
qed

declare expUp.simps [simp del] expDown.simps [simp del]

definition binExp :: "real \<Rightarrow> int" where
  "binExp a = (if 1 \<le> a then expUp a else expDown a)"

definition fl64 :: "real \<Rightarrow> real" where
  "fl64 x =
     (if x = 0 then 0
      else (let a = \<bar>x\<bar>; u = 2 powi (binExp a - 52)
            in sgn x * (of_int (roundHalfEven (a / u)) * u)))"

section \<open>Gear trains\<close>

record gearTrain =
  shafts :: "shaft list"
  outputMultiplier :: real
  maxForce :: "real option"
  numerator :: "real option"
  denominator :: "real option"

text \<open>
  The loop of \<open>updateOutputMultiplier\<close>, from index \<open>i\<close> on: a division and a
  multiplication of doubles in each round, each of them rounded.
\<close>

function outputMultiplier_loop :: "shaft list \<Rightarrow> nat \<Rightarrow> real \<Rightarrow> real" where
  "outputMultiplier_loop ss i om =
     (if i < length ss
      then outputMultiplier_loop ss (i + 1)
             (fl64 (om * fl64 (outputGear (ss ! (i - 1)) / inputGear (ss ! i))))
      else om)"
  by pat_completeness auto
termination
  by (relation "measure (\<lambda>(ss, i, om). length ss - i)") auto

declare outputMultiplier_loop.simps [simp del]

text \<open>The loop of \<open>updateOutputFraction\<close>: numerator and denominator side by side.\<close>

function outputFraction_loop :: "shaft list \<Rightarrow> nat \<Rightarrow> real \<times> real \<Rightarrow> real \<times> real" where
  "outputFraction_loop ss i nd =
     (if i < length ss
      then outputFraction_loop ss (i + 1)
             (fst nd * outputGear (ss ! (i - 1)), snd nd * inputGear (ss ! i))
      else nd)"
  by pat_completeness auto
termination
  by (relation "measure (\<lambda>(ss, i, nd). length ss - i)") auto

declare outputFraction_loop.simps [simp del]

text \<open>The loop of \<open>updateMaxForce\<close>: the state is the torque and the running maximum.\<close>

function maxForce_loop :: "shaft list \<Rightarrow> nat \<Rightarrow> real \<Rightarrow> real \<Rightarrow> real" where
  "maxForce_loop ss i torque mf =
     (if i < length ss
      then (let torque = torque * (inputGear (ss ! i) / outputGear (ss ! (i - 1)));
                mf = max mf (torque / inputGear (ss ! i));
                mf = max mf (torque / outputGear (ss ! i))
            in maxForce_loop ss (i + 1) torque mf)
      else mf)"
  by pat_completeness auto
termination
  by (relation "measure (\<lambda>(ss, i, torque, mf). length ss - i)") auto

declare maxForce_loop.simps [simp del]

text \<open>
  \<open>updateMaxForce\<close> reads \<open>shafts[0]\<close>; it is only called on a non-empty shaft list.
\<close>

definition updateMaxForce :: "gearTrain \<Rightarrow> gearTrain" where
  "updateMaxForce t =
     (let torque = 1;
          mf = torque / inputGear (shafts t ! 0)
      in t\<lparr>maxForce := Some (maxForce_loop (shafts t) 1 torque mf)\<rparr>)"

definition updateOutputFraction :: "gearTrain \<Rightarrow> gearTrain" where
  "updateOutputFraction t =
     (let nd = outputFraction_loop (shafts t) 1 (1, 1)
      in t\<lparr>numerator := Some (fst nd), denominator := Some (snd nd),
            outputMultiplier := fst nd / snd nd\<rparr>)"

definition updateOutputMultiplier :: "gearTrain \<Rightarrow> gearTrain" where
  "updateOutputMultiplier t =
     updateOutputFraction (updateMaxForce
       (t\<lparr>outputMultiplier := outputMultiplier_loop (shafts t) 1 1\<rparr>))"

text \<open>
  The constructor copies the four fields of every shaft of its argument, an array of
  \<open>Shaft\<close> objects (an array with a hole is handled by \<open>GearTrain_of\<close> below).
\<close>

definition copyShaft :: "shaft \<Rightarrow> shaft" where
  "copyShaft s =
     \<lparr>gearCount = gearCount s, inputGear = inputGear s, outputGear = outputGear s,
      spacerSize = spacerSize s\<rparr>"

definition GearTrain :: "shaft list \<Rightarrow> gearTrain" where
  "GearTrain ss =
     (let t = \<lparr>shafts = map copyShaft ss, outputMultiplier = - 1, maxForce = None,
               numerator = None, denominator = None\<rparr>
      in if length (shafts t) > 0 then updateOutputMultiplier t else t)"

text \<open>
  The loop of \<open>shaftDistance\<close>. Reading \<open>shafts[i - 1]\<close> outside the array gives
  \<open>undefined\<close>, whose \<open>outputGear\<close> is a TypeError.
\<close>

function shaftDistance_loop ::
  "shaft list \<Rightarrow> real \<Rightarrow> int \<Rightarrow> int \<Rightarrow> real \<Rightarrow> error + real" where
  "shaftDistance_loop ss m i lastShaft distance =
     (if i < lastShaft
      then (if 0 \<le> i - 1 \<and> i - 1 < int (length ss)
            then (let outputDiameter = outputGear (ss ! nat (i - 1)) * m;
                      inputDiameter = inputGear (ss ! nat (i - 1)) * m
                  in shaftDistance_loop ss m (i + 1) lastShaft
                       (distance + (outputDiameter + inputDiameter) / 2))
            else Inl TypeError)
      else Inr distance)"
  by pat_completeness auto
termination
  by (relation "measure (\<lambda>(ss, m, i, lastShaft, distance). nat (lastShaft - i))") auto

declare shaftDistance_loop.simps [simp del]

definition shaftDistance :: "gearTrain \<Rightarrow> real \<Rightarrow> int \<Rightarrow> int \<Rightarrow> error + real" where
  "shaftDistance t m firstShaft lastShaft =
     (if firstShaft > int (length (shafts t)) - 2 then Inr 0
      else (let lastShaft = (if lastShaft = - 1 then int (length (shafts t)) else lastShaft)
            in shaftDistance_loop (shafts t) m (firstShaft + 1) lastShaft 0))"

section \<open>The ranking comparator\<close>

text \<open>
  The comparator reads \<open>nominator\<close>, a property no gear train has: the read gives
  \<open>undefined\<close> and the product is NaN, written \<open>None\<close>. Subtracting an undefined
  \<open>maxForce\<close> gives NaN as well.
\<close>

definition nominator :: "gearTrain \<Rightarrow> real option" where
  "nominator t = None"

definition js_times :: "real option \<Rightarrow> real option \<Rightarrow> real option" where
  "js_times x y = (case (x, y) of (Some a, Some b) \<Rightarrow> Some (a * b) | _ \<Rightarrow> None)"

definition js_minus :: "real option \<Rightarrow> real option \<Rightarrow> real option" where
  "js_minus x y = (case (x, y) of (Some a, Some b) \<Rightarrow> Some (a - b) | _ \<Rightarrow> None)"

definition compareGearTrains :: "gearTrain \<Rightarrow> gearTrain \<Rightarrow> real \<Rightarrow> real option" where
  "compareGearTrains a b desiredOutputMultiplier =
     (let dev1 = \<bar>outputMultiplier a - desiredOutputMultiplier\<bar>;
          dev2 = \<bar>outputMultiplier b - desiredOutputMultiplier\<bar>;
          size1 = js_times (nominator a) (denominator b);
          size2 = js_times (nominator b) (denominator a)
      in if dev1 - dev2 \<noteq> 0 then Some (dev1 - dev2)
         else js_minus (maxForce a) (maxForce b))"

text \<open>A sort places \<open>a\<close> before \<open>b\<close> when the comparator returns a negative number.\<close>

definition ordersBefore :: "gearTrain \<Rightarrow> gearTrain \<Rightarrow> real \<Rightarrow> bool" where
  "ordersBefore a b t = (case compareGearTrains a b t of Some r \<Rightarrow> r < 0 | None \<Rightarrow> False)"

section \<open>The permutation count\<close>

text \<open>
  \<open>calculatePermutationCount\<close> recurses on \<open>shaftCount - 1\<close> until it meets 1; from a
  shaft count below 1 it never returns, which is the value \<open>None\<close>.
\<close>

partial_function (option) calculatePermutationCount :: "int \<Rightarrow> int \<Rightarrow> int option" where
  "calculatePermutationCount nShafts nGears =
     (if nShafts = 1 then Some nGears
      else Option.bind (calculatePermutationCount (nShafts - 1) (nGears - 1)) (\<lambda>a.
           Option.bind (calculatePermutationCount (nShafts - 1) (nGears - 2)) (\<lambda>b.
             Some (0 + nGears * a + nGears * (nGears - 1) * b))))"

declare calculatePermutationCount.simps [code]

section \<open>The search engine\<close>

text \<open>
  The fields of class \<open>GearTrainPermutations\<close> that its caller assigns are the record
  \<open>settings\<close>; those that \<open>setupCalculation\<close> and \<open>iterate\<close> assign are the record
  \<open>engine\<close>. The array \<open>this.shafts\<close> may hold empty slots (\<open>None\<close>).
  A stack frame's \<open>shafts\<close> property is always a reference to that same array and
  is never read through, so the frame record leaves it out. The head of
  \<open>permutationStack\<close> is the top of the stack.
\<close>

record settings =
  shaftCount :: int
  changeGearSet :: "real list"
  inputGearSet :: "real list"
  sharedInputGearSet :: bool
  engineSpacerSize :: real
  inputAdjacentSize :: real
  engineAddendum :: real
  engineModule :: real
  minShaftDistance :: real
  maxShaftDistance :: real

record frame =
  availableGears :: "real list"
  currentShaft :: nat
  inputIndex :: nat
  outputIndex :: nat

record engine =
  engineShafts :: "shaft option list"
  gearTrains :: "gearTrain list"
  foundSolutions :: int
  skippedSolutions :: int
  discardedSolutions :: int
  permutationStack :: "frame list"
  inputGearIndex :: nat
  permutationCount :: int

text \<open>Writing past the end of a JavaScript array extends it with empty slots.\<close>

definition js_set :: "'a option list \<Rightarrow> nat \<Rightarrow> 'a \<Rightarrow> 'a option list" where
  "js_set xs i v =
     (if i < length xs then xs[i := Some v]
      else xs @ replicate (i - length xs) None @ [Some v])"

definition js_get :: "'a option list \<Rightarrow> int \<Rightarrow> 'a option" where
  "js_get xs i = (if 0 \<le> i \<and> i < int (length xs) then xs ! nat i else None)"

text \<open>\<open>splice(i, 1)\<close> on a copy: the element at index \<open>i\<close> is removed, if there is one.\<close>

definition splice1 :: "nat \<Rightarrow> 'a list \<Rightarrow> 'a list" where
  "splice1 i xs = take i xs @ drop (Suc i) xs"

text \<open>The constructor on an array that may have empty slots: copying one is a TypeError.\<close>

definition GearTrain_of :: "shaft option list \<Rightarrow> error + gearTrain" where
  "GearTrain_of xs = (if None \<in> set xs then Inl TypeError else Inr (GearTrain (map the xs)))"

definition constraintsViolated :: "settings \<Rightarrow> shaft option list \<Rightarrow> nat \<Rightarrow> error + bool" where
  "constraintsViolated cfg shs cur =
     (if cur = 0 then Inr False
      else (case GearTrain_of (take (cur + 1) shs) of
              Inl e \<Rightarrow> Inl e
            | Inr train \<Rightarrow>
                (case shaftDistance train (engineModule cfg) 0 (- 1) of
                   Inl e \<Rightarrow> Inl e
                 | Inr distance \<Rightarrow>
                     (if minShaftDistance cfg > 0 \<and> distance < minShaftDistance cfg then Inr True
                      else if maxShaftDistance cfg > 0 \<and> distance > maxShaftDistance cfg
                      then Inr True
                      else Inr False))))"

definition registerGearTrain :: "engine \<Rightarrow> error + engine" where
  "registerGearTrain st =
     (case GearTrain_of (engineShafts st) of
        Inl e \<Rightarrow> Inl e
      | Inr newGearTrain \<Rightarrow> Inr (st\<lparr>gearTrains := gearTrains st @ [newGearTrain]\<rparr>))"

text \<open>
  The body of the loop over \<open>lastIndex\<close> that \<open>iterateShafts\<close> runs on the final
  shaft (each \<open>continue\<close> ends the body), and the loop itself.
\<close>

definition finalShaft_body ::
  "settings \<Rightarrow> nat \<Rightarrow> real list \<Rightarrow> nat \<Rightarrow> engine \<Rightarrow> error + engine" where
  "finalShaft_body cfg cur avail lastIndex st =
     (if lastIndex > 0 \<and> avail ! (lastIndex - 1) = avail ! lastIndex
      then Inr (st\<lparr>skippedSolutions := skippedSolutions st + 1\<rparr>)
      else (let st1 = st\<lparr>engineShafts :=
                        js_set (engineShafts st) cur
                          (Shaft (avail ! lastIndex) 0 (engineSpacerSize cfg))\<rparr>
            in case constraintsViolated cfg (engineShafts st1) cur of
                 Inl e \<Rightarrow> Inl e
               | Inr violated \<Rightarrow>
                   (if violated
                    then Inr (st1\<lparr>skippedSolutions := skippedSolutions st1 + 1\<rparr>)
                    else (case (js_get (engineShafts st1) (int cur - 1),
                                js_get (engineShafts st1) (int cur)) of
                            (Some inp, Some outp) \<Rightarrow>
                              (if \<not> shaftsInterfere inp outp (engineAddendum cfg)
                               then (case registerGearTrain st1 of
                                       Inl e \<Rightarrow> Inl e
                                     | Inr st2 \<Rightarrow>
                                         Inr (st2\<lparr>foundSolutions := foundSolutions st2 + 1\<rparr>))
                               else Inr (st1\<lparr>discardedSolutions :=
                                               discardedSolutions st1 + 1\<rparr>))
                          | _ \<Rightarrow> Inl TypeError))))"

function finalShaft_loop ::
  "settings \<Rightarrow> nat \<Rightarrow> real list \<Rightarrow> nat \<Rightarrow> engine \<Rightarrow> error + engine" where
  "finalShaft_loop cfg cur avail lastIndex st =
     (if lastIndex < length avail
      then (case finalShaft_body cfg cur avail lastIndex st of
              Inl e \<Rightarrow> Inl e
            | Inr st' \<Rightarrow> finalShaft_loop cfg cur avail (lastIndex + 1) st')
      else Inr st)"
  by pat_completeness auto
termination
  by (relation "measure (\<lambda>(cfg, cur, avail, lastIndex, st). length avail - lastIndex)") auto

declare finalShaft_loop.simps [simp del]

text \<open>
  One call of \<open>iterateShafts\<close>. A permutation count that never returns exhausts the
  call stack: a RangeError.
\<close>

definition iterateShafts :: "settings \<Rightarrow> engine \<Rightarrow> error + (bool \<times> engine)" where
  "iterateShafts cfg st0 =
     (case permutationStack st0 of
        [] \<Rightarrow> Inr (True, st0)
      | fr # rest \<Rightarrow>
          (let st = st0\<lparr>permutationStack := rest\<rparr>;
               avail = availableGears fr;
               cur = currentShaft fr
           in if int cur = int (length (engineShafts st)) - 1
              then (case finalShaft_loop cfg cur avail 0 st of
                      Inl e \<Rightarrow> Inl e
                    | Inr st' \<Rightarrow> Inr (False, st'))
              else (let (outIdx, inIdx) =
                          (if outputIndex fr \<ge> length avail then (0, inputIndex fr + 1)
                           else (outputIndex fr, inputIndex fr))
                    in if inIdx \<ge> length avail then Inr (False, st)
                       else (let inGear = avail ! inIdx;
                                 outGear = avail ! outIdx;
                                 remainingGears = splice1 inIdx avail;
                                 (outGear, remainingGears) =
                                   (if inIdx = outIdx then (0, remainingGears)
                                    else (outGear,
                                          if outIdx < inIdx then splice1 outIdx remainingGears
                                          else splice1 (outIdx - 1) remainingGears));
                                 st = st\<lparr>engineShafts :=
                                           js_set (engineShafts st) cur
                                             (Shaft inGear outGear (engineSpacerSize cfg))\<rparr>;
                                 fr = fr\<lparr>outputIndex := outIdx + 1, inputIndex := inIdx\<rparr>;
                                 st = st\<lparr>permutationStack := fr # permutationStack st\<rparr>
                             in if outIdx > 0 \<and> outGear > 0 \<and> avail ! (outIdx - 1) = avail ! outIdx
                                then (case calculatePermutationCount
                                             (int (length (engineShafts st)) - int cur - 1)
                                             (int (length remainingGears)) of
                                        None \<Rightarrow> Inl RangeError
                                      | Some n \<Rightarrow>
                                          Inr (False,
                                               st\<lparr>skippedSolutions := skippedSolutions st + n\<rparr>))
                                else (let newFrame =
                                            \<lparr>availableGears = remainingGears,
                                             currentShaft = cur + 1,
                                             inputIndex = 0, outputIndex = 0\<rparr>
                                      in Inr (False,
                                              st\<lparr>permutationStack :=
                                                    newFrame # permutationStack st\<rparr>))))))"

text \<open>
  \<open>setupCalculation\<close> leaves \<open>gearTrains\<close> as it finds it (the constructor made it
  empty), so the model takes the current value as an argument. \<open>new Array(n)\<close> is a
  RangeError unless \<open>0 \<le> n < 2^32\<close>.
\<close>

definition setupCalculation :: "settings \<Rightarrow> gearTrain list \<Rightarrow> error + engine" where
  "setupCalculation cfg trains =
     (if shaftCount cfg < 0 \<or> 4294967295 < shaftCount cfg then Inl RangeError
      else (let shs = replicate (nat (shaftCount cfg)) None
            in case (if sharedInputGearSet cfg
                     then map_option (\<lambda>n. int (length (changeGearSet cfg)) * n)
                            (calculatePermutationCount (int (length shs) - 1)
                               (int (length (changeGearSet cfg)) - 1))
                     else map_option (\<lambda>n. int (length (inputGearSet cfg)) * n)
                            (calculatePermutationCount (int (length shs) - 1)
                               (int (length (changeGearSet cfg))))) of
                 None \<Rightarrow> Inl RangeError
               | Some cnt \<Rightarrow>
                   Inr \<lparr>engineShafts = shs, gearTrains = trains, foundSolutions = 0,
                        skippedSolutions = 0, discardedSolutions = 0, permutationStack = [],
                        inputGearIndex = 0, permutationCount = cnt\<rparr>))"

text \<open>
  One call of \<open>iterate\<close>. \<open>indexOf\<close> followed by \<open>splice\<close> removes the first
  occurrence. Falling off the end returns \<open>undefined\<close>, which the caller reads as
  "not complete"; the three tests leave no state that gets there.
\<close>

definition iterate :: "settings \<Rightarrow> engine \<Rightarrow> error + (bool \<times> engine)" where
  "iterate cfg st =
     (let firstGearSet = (if sharedInputGearSet cfg then changeGearSet cfg else inputGearSet cfg)
      in if inputGearIndex st \<ge> length firstGearSet \<and> length (permutationStack st) \<le> 0
         then Inr (True, st)
         else if length (permutationStack st) > 0 then iterateShafts cfg st
         else if inputGearIndex st < length firstGearSet
         then (let st = st\<lparr>engineShafts :=
                           js_set (engineShafts st) 0
                             (Shaft (firstGearSet ! inputGearIndex st) 0 (inputAdjacentSize cfg))\<rparr>;
                   availableGearSet = changeGearSet cfg;
                   availableGearSet =
                     (if sharedInputGearSet cfg
                      then remove1 (firstGearSet ! inputGearIndex st) availableGearSet
                      else availableGearSet);
                   fr = \<lparr>availableGears = availableGearSet, currentShaft = 1,
                         inputIndex = 0, outputIndex = 0\<rparr>;
                   st = st\<lparr>permutationStack := fr # permutationStack st\<rparr>;
                   st = st\<lparr>inputGearIndex := inputGearIndex st + 1\<rparr>
               in iterateShafts cfg st)
         else Inr (False, st))"

text \<open>\<open>n\<close> calls of \<open>iterate\<close> in a row; an exception ends the run.\<close>

primrec steps :: "settings \<Rightarrow> nat \<Rightarrow> engine \<Rightarrow> error + engine" where
  "steps cfg 0 st = Inr st"
| "steps cfg (Suc n) st =
     (case iterate cfg st of Inl e \<Rightarrow> Inl e | Inr r \<Rightarrow> steps cfg n (snd r))"

section \<open>Definitions used to state the properties\<close>

text \<open>The value of \<open>calculatePermutationCount (k + 1) g\<close>, by recursion on \<open>k\<close>.\<close>

primrec permCount :: "nat \<Rightarrow> int \<Rightarrow> int" where
  "permCount 0 g = g"
| "permCount (Suc k) g = g * permCount k (g - 1) + g * (g - 1) * permCount k (g - 2)"

text \<open>
  The force bound as the specification words it: the torque on shaft \<open>i\<close>, the
  candidate forces of shaft \<open>i\<close>, and all candidates of a train.
\<close>

primrec torqueAt :: "shaft list \<Rightarrow> nat \<Rightarrow> real" where
  "torqueAt ss 0 = 1"
| "torqueAt ss (Suc i) = torqueAt ss i * (inputGear (ss ! Suc i) / outputGear (ss ! i))"

definition shaftForces :: "shaft list \<Rightarrow> nat \<Rightarrow> real list" where
  "shaftForces ss i =
     (if i = 0 then [torqueAt ss i / inputGear (ss ! i)]
      else [torqueAt ss i / inputGear (ss ! i), torqueAt ss i / outputGear (ss ! i)])"

definition candidateForces :: "shaft list \<Rightarrow> real list" where
  "candidateForces ss = concat (map (shaftForces ss) [0..<length ss])"

text \<open>The data model's invariant on tooth counts: every divisor is positive.\<close>

definition positiveTeeth :: "shaft list \<Rightarrow> bool" where
  "positiveTeeth ss = list_all (\<lambda>s. 0 < inputGear s \<and> 0 < outputGear s) ss"

text \<open>
  A small configuration: two shafts, the input gear drawn from the change gears
  20, 20 and 30, no spacers, no distance bounds; and the engine after its setup.
\<close>

definition demoSettings :: settings where
  "demoSettings =
     \<lparr>shaftCount = 2, changeGearSet = [20, 20, 30], inputGearSet = [],
      sharedInputGearSet = True, engineSpacerSize = 0, inputAdjacentSize = 0,
      engineAddendum = 6 / 5, engineModule = 1, minShaftDistance = 0,
      maxShaftDistance = 0\<rparr>"

definition demoStart :: engine where
  "demoStart =
     \<lparr>engineShafts = [None, None], gearTrains = [], foundSolutions = 0,
      skippedSolutions = 0, discardedSolutions = 0, permutationStack = [],
      inputGearIndex = 0, permutationCount = 6\<rparr>"

text \<open>
  The bookkeeping of the search. A frame of a shaft before the last walks the cells
  \<open>(inputIndex, outputIndex)\<close> of a square of side the pool size, row by row;
  \<open>cellsLeft\<close> counts the cells from the cursor on and \<open>singlesLeft\<close> those on the
  diagonal among them (one gear on the shaft). \<open>pending\<close> is the number of
  permutations a frame still stands for, \<open>settled\<close> the number already counted.
\<close>

definition cellsLeft :: "nat \<Rightarrow> nat \<Rightarrow> nat \<Rightarrow> int" where
  "cellsLeft g i oi = (if i < g then (int g - int i) * int g - int oi else 0)"

definition singlesLeft :: "nat \<Rightarrow> nat \<Rightarrow> nat \<Rightarrow> int" where
  "singlesLeft g i oi = (if i < g then int g - int i - 1 + (if oi \<le> i then 1 else 0) else 0)"

definition pending :: "nat \<Rightarrow> frame \<Rightarrow> int" where
  "pending S fr =
     (let g = length (availableGears fr); c = currentShaft fr
      in if c + 1 = S then int g
         else singlesLeft g (inputIndex fr) (outputIndex fr) * permCount (S - c - 2) (int g - 1)
            + (cellsLeft g (inputIndex fr) (outputIndex fr)
                 - singlesLeft g (inputIndex fr) (outputIndex fr))
              * permCount (S - c - 2) (int g - 2))"

definition frameOK :: "nat \<Rightarrow> frame \<Rightarrow> bool" where
  "frameOK S fr =
     (1 \<le> currentShaft fr \<and> currentShaft fr < S \<and> outputIndex fr \<le> length (availableGears fr))"

definition settled :: "engine \<Rightarrow> int" where
  "settled st = foundSolutions st + skippedSolutions st + discardedSolutions st"

definition normalisedCursor :: "frame \<Rightarrow> nat \<times> nat" where
  "normalisedCursor fr =
     (if outputIndex fr \<ge> length (availableGears fr) then (0, inputIndex fr + 1)
      else (outputIndex fr, inputIndex fr))"

definition remainingAfter :: "real list \<Rightarrow> nat \<Rightarrow> nat \<Rightarrow> real list" where
  "remainingAfter avail inIdx outIdx =
     (if inIdx = outIdx then splice1 inIdx avail
      else if outIdx < inIdx then splice1 outIdx (splice1 inIdx avail)
      else splice1 (outIdx - 1) (splice1 inIdx avail))"

definition bookkeeping :: "engine \<Rightarrow> int \<times> nat \<times> int \<times> frame list" where
  "bookkeeping st =
     (int (length (gearTrains st)) - foundSolutions st, inputGearIndex st,
      permutationCount st, permutationStack st)"

definition pendingStack :: "nat \<Rightarrow> engine \<Rightarrow> int" where
  "pendingStack S st = sum_list (map (pending S) (permutationStack st))"

definition firstGearSet :: "settings \<Rightarrow> real list" where
  "firstGearSet cfg = (if sharedInputGearSet cfg then changeGearSet cfg else inputGearSet cfg)"

definition seedPoolSize :: "settings \<Rightarrow> int" where
  "seedPoolSize cfg =
     (if sharedInputGearSet cfg then int (length (changeGearSet cfg)) - 1
      else int (length (changeGearSet cfg)))"

definition countInv :: "settings \<Rightarrow> engine \<Rightarrow> bool" where
  "countInv cfg st =
     (let S = length (engineShafts st)
      in 2 \<le> S \<and> list_all (frameOK S) (permutationStack st)
         \<and> int (length (gearTrains st)) = foundSolutions st
         \<and> settled st + pendingStack S st
              + int (length (firstGearSet cfg) - inputGearIndex st)
                * permCount (S - 2) (seedPoolSize cfg)
            = permutationCount st)"

text \<open>
  For the progress of the search: the slots of \<open>this.shafts\<close> below an index hold
  shafts, and some positive number of calls of \<open>iterate\<close> takes the top frame off
  the stack without an exception, leaving the array's length and the input cursor as
  they are and no slot emptied.
\<close>

definition definedBelow :: "nat \<Rightarrow> shaft option list \<Rightarrow> bool" where
  "definedBelow c xs = (c \<le> length xs \<and> (\<forall>i<c. xs ! i \<noteq> None))"

definition reachesPop :: "settings \<Rightarrow> engine \<Rightarrow> frame list \<Rightarrow> bool" where
  "reachesPop cfg st rest =
     (\<exists>n st'. 0 < n \<and> steps cfg n st = Inr st' \<and> permutationStack st' = rest
        \<and> length (engineShafts st') = length (engineShafts st)
        \<and> inputGearIndex st' = inputGearIndex st
        \<and> (\<forall>c. definedBelow c (engineShafts st) \<longrightarrow> definedBelow c (engineShafts st')))"

text \<open>
  What the engine checks of a train before it accepts it: the last two shafts do not
  interfere, in that order, for the given addendum.
\<close>

definition clearsLastPair :: "real \<Rightarrow> gearTrain \<Rightarrow> bool" where
  "clearsLastPair a t =
     (2 \<le> length (shafts t)
      \<and> \<not> shaftsInterfere (shafts t ! (length (shafts t) - 2))
            (shafts t ! (length (shafts t) - 1)) a)"



text \<open>A train of three shafts, the middle one with two gears.\<close>

definition demoShafts :: "shaft list" where
  "demoShafts = [Shaft 20 0 0, Shaft 40 30 0, Shaft 60 0 0]"

section \<open>Properties\<close>

subsection \<open>Basic facts\<close>

lemma copyShaft_id [simp]: "copyShaft s = s"
  by (simp add: copyShaft_def)

lemma map_copyShaft [simp]: "map copyShaft ss = ss"
  by (induction ss) simp_all

lemma shafts_GearTrain [simp]: "shafts (GearTrain ss) = ss"
  by (simp add: GearTrain_def updateOutputMultiplier_def updateOutputFraction_def
      updateMaxForce_def Let_def)

lemma demo_setup: "setupCalculation demoSettings [] = Inr demoStart"
  by code_simp

lemma demoShafts_ok: "demoShafts \<noteq> []" "positiveTeeth demoShafts"
  by (simp_all add: demoShafts_def positiveTeeth_def Shaft_def)

lemma demoShafts_nth:
  "length demoShafts = 3"
  "demoShafts ! 0 = Shaft 20 0 0"
  "demoShafts ! Suc 0 = Shaft 40 30 0"
  "demoShafts ! Suc (Suc 0) = Shaft 60 0 0"
  by (simp_all add: demoShafts_def)

subsection \<open>The interference predicate\<close>

text \<open>
  Claim C2. Two shafts interfere exactly when the non-meshing distance (for each
  shaft its spacer if it has one gear, else its input gear on the upstream side and
  its output gear on the downstream side, plus twice the addendum) exceeds the meshing
  distance, the upstream output gear plus the downstream input gear. Two single-gear
  shafts of 20 teeth with spacer 0 and addendum 1.25 have meshing distance 40,
  non-meshing distance 2.5 and do not interfere.
\<close>

theorem shaftsInterfere_characterisation:
  "(shaftsInterfere inp outp a \<longleftrightarrow>
      (if gearCount inp = 1 then spacerSize inp else inputGear inp)
        + (if gearCount outp = 1 then spacerSize outp else outputGear outp) + 2 * a
      > outputGear inp + inputGear outp)
   \<and> gearCount (Shaft 20 0 0) = 1
   \<and> outputGear (Shaft 20 0 0) + inputGear (Shaft 20 0 0) = 40
   \<and> spacerSize (Shaft 20 0 0) + spacerSize (Shaft 20 0 0) + 2 * (5 / 4) = 5 / 2
   \<and> \<not> shaftsInterfere (Shaft 20 0 0) (Shaft 20 0 0) (5 / 4)"
  by (simp add: shaftsInterfere_def Shaft_def Let_def)

theorem shaftsInterfere_characterisation_witness:
  "shaftsInterfere (Shaft 40 30 0) (Shaft 20 50 0) (6 / 5)"
  using shaftsInterfere_characterisation [of "Shaft 40 30 0" "Shaft 20 50 0" "6 / 5"]
  by (simp add: Shaft_def)

subsection \<open>The permutation count\<close>

lemma calculatePermutationCount_Suc:
  "calculatePermutationCount (int k + 1) g = Some (permCount k g)"
proof (induction k arbitrary: g)
  case 0
  show ?case by (simp add: calculatePermutationCount.simps)
next
  case (Suc k)
  have "calculatePermutationCount (int (Suc k) + 1) g =
        Option.bind (calculatePermutationCount (int k + 1) (g - 1)) (\<lambda>a.
        Option.bind (calculatePermutationCount (int k + 1) (g - 2)) (\<lambda>b.
          Some (0 + g * a + g * (g - 1) * b)))"
    by (subst calculatePermutationCount.simps) (simp add: add.commute)
  then show ?case by (simp add: Suc.IH)
qed

lemma calculatePermutationCount_returns:
  "1 \<le> s \<Longrightarrow> calculatePermutationCount s g = Some (permCount (nat (s - 1)) g)"
  using calculatePermutationCount_Suc [of "nat (s - 1)" g] by simp

text \<open>
  Claim C3, as stated, fails: for one shaft the count is the number of gears, not 1.
\<close>

theorem calculatePermutationCount_one_shaft_counterexample:
  "calculatePermutationCount 1 5 \<noteq> Some 1"
  by (simp add: calculatePermutationCount.simps)

text \<open>
  Claim C3, amended. For one shaft the count is the number of gears; for two or more
  shafts both recursive calls return and the count is
  \<open>g * count (s - 1) (g - 1) + g * (g - 1) * count (s - 1) (g - 2)\<close>.
\<close>

theorem calculatePermutationCount_recursion:
  "calculatePermutationCount 1 g = Some g \<and>
   (2 \<le> s \<longrightarrow>
      (\<exists>a b. calculatePermutationCount (s - 1) (g - 1) = Some a \<and>
             calculatePermutationCount (s - 1) (g - 2) = Some b \<and>
             calculatePermutationCount s g = Some (g * a + g * (g - 1) * b)))"
proof (intro conjI impI)
  show "calculatePermutationCount 1 g = Some g"
    by (simp add: calculatePermutationCount.simps)
next
  assume s: "2 \<le> s"
  then have a: "calculatePermutationCount (s - 1) (g - 1) = Some (permCount (nat (s - 2)) (g - 1))"
    and b: "calculatePermutationCount (s - 1) (g - 2) = Some (permCount (nat (s - 2)) (g - 2))"
    using calculatePermutationCount_returns [of "s - 1"] by simp_all
  have "calculatePermutationCount s g =
        Option.bind (calculatePermutationCount (s - 1) (g - 1)) (\<lambda>a.
        Option.bind (calculatePermutationCount (s - 1) (g - 2)) (\<lambda>b.
          Some (0 + g * a + g * (g - 1) * b)))"
    using s by (subst calculatePermutationCount.simps) simp
  then show "\<exists>a b. calculatePermutationCount (s - 1) (g - 1) = Some a \<and>
       calculatePermutationCount (s - 1) (g - 2) = Some b \<and>
       calculatePermutationCount s g = Some (g * a + g * (g - 1) * b)"
    by (simp add: a b)
qed

theorem calculatePermutationCount_recursion_witness:
  "(2::int) \<le> 3 \<and> calculatePermutationCount 3 4 = Some 72"
  using calculatePermutationCount_recursion [of 4 3]
  by (auto simp: calculatePermutationCount.simps)

subsection \<open>The ranking comparator\<close>

text \<open>
  Claim C5. The comparator puts \<open>a\<close> before \<open>b\<close> exactly when \<open>a\<close> deviates less
  from the target, or deviates as much and has the smaller \<open>maxForce\<close>; its value is
  the same for any two pairs of trains that agree on \<open>outputMultiplier\<close> and
  \<open>maxForce\<close>, whatever their other fields hold.
\<close>

theorem compareGearTrains_two_keys:
  "(ordersBefore a b t \<longleftrightarrow>
      \<bar>outputMultiplier a - t\<bar> < \<bar>outputMultiplier b - t\<bar>
      \<or> (\<bar>outputMultiplier a - t\<bar> = \<bar>outputMultiplier b - t\<bar>
          \<and> (\<exists>x y. maxForce a = Some x \<and> maxForce b = Some y \<and> x < y)))
   \<and> (outputMultiplier a' = outputMultiplier a \<and> maxForce a' = maxForce a
        \<and> outputMultiplier b' = outputMultiplier b \<and> maxForce b' = maxForce b
        \<longrightarrow> compareGearTrains a' b' t = compareGearTrains a b t)"
  by (auto simp: ordersBefore_def compareGearTrains_def js_minus_def Let_def
      split: option.splits)

theorem compareGearTrains_two_keys_witness:
  "ordersBefore (GearTrain [Shaft 20 0 0, Shaft 20 0 0])
     (GearTrain [Shaft 20 0 0, Shaft 30 0 0]) 1"
proof -
  have a: "outputMultiplier (GearTrain [Shaft 20 0 0, Shaft 20 0 0]) = 1"
    by code_simp
  have b: "outputMultiplier (GearTrain [Shaft 20 0 0, Shaft 30 0 0]) = 2 / 3"
    by code_simp
  show ?thesis
    using compareGearTrains_two_keys
      [of "GearTrain [Shaft 20 0 0, Shaft 20 0 0]" "GearTrain [Shaft 20 0 0, Shaft 30 0 0]" 1]
    by (simp add: a b)
qed

subsection \<open>The fields of a gear train\<close>

lemma outputFraction_loop_prod:
  "outputFraction_loop ss i nd =
     (fst nd * (\<Prod>k = i..<length ss. outputGear (ss ! (k - 1))),
      snd nd * (\<Prod>k = i..<length ss. inputGear (ss ! k)))"
proof (induction ss i nd rule: outputFraction_loop.induct)
  case (1 ss i nd)
  show ?case
  proof (cases "i < length ss")
    case True
    then show ?thesis
      using 1 by (subst outputFraction_loop.simps) (simp add: prod.atLeast_Suc_lessThan)
  next
    case False
    then show ?thesis by (subst outputFraction_loop.simps) simp
  qed
qed

lemma GearTrain_fields:
  assumes "ss \<noteq> []"
  shows "numerator (GearTrain ss) = Some (\<Prod>k = 1..<length ss. outputGear (ss ! (k - 1)))"
    and "denominator (GearTrain ss) = Some (\<Prod>k = 1..<length ss. inputGear (ss ! k))"
    and "outputMultiplier (GearTrain ss) =
           (\<Prod>k = 1..<length ss. outputGear (ss ! (k - 1)))
             / (\<Prod>k = 1..<length ss. inputGear (ss ! k))"
    and "maxForce (GearTrain ss) = Some (maxForce_loop ss 1 1 (1 / inputGear (ss ! 0)))"
  using assms
  by (simp_all add: GearTrain_def updateOutputMultiplier_def updateOutputFraction_def
      updateMaxForce_def Let_def outputFraction_loop_prod)

subsection \<open>Rounding\<close>














subsection \<open>The output multiplier and the product of the ratios\<close>




subsection \<open>The force bound\<close>

lemma maxForce_loop_fold:
  "1 \<le> i \<Longrightarrow> torque = torqueAt ss (i - 1) \<Longrightarrow>
   maxForce_loop ss i torque mf = fold max (concat (map (shaftForces ss) [i..<length ss])) mf"
proof (induction ss i torque mf rule: maxForce_loop.induct)
  case (1 ss i torque mf)
  show ?case
  proof (cases "i < length ss")
    case True
    from \<open>1 \<le> i\<close> obtain j where j: "i = Suc j" by (cases i) auto
    have t: "torque * (inputGear (ss ! i) / outputGear (ss ! (i - 1))) = torqueAt ss i"
      using 1(3) j by simp
    have f: "shaftForces ss i = [torqueAt ss i / inputGear (ss ! i), torqueAt ss i / outputGear (ss ! i)]"
      using j by (simp add: shaftForces_def)
    have m: "max (max mf (torqueAt ss i / inputGear (ss ! i))) (torqueAt ss i / outputGear (ss ! i))
           = max (torqueAt ss i / outputGear (ss ! i)) (max (torqueAt ss i / inputGear (ss ! i)) mf)"
      by (simp add: max.commute)
    have "maxForce_loop ss i torque mf =
          maxForce_loop ss (i + 1) (torqueAt ss i)
            (max (max mf (torqueAt ss i / inputGear (ss ! i))) (torqueAt ss i / outputGear (ss ! i)))"
      using True t by (subst maxForce_loop.simps) (simp add: Let_def)
    also have "\<dots> = fold max (concat (map (shaftForces ss) [i + 1..<length ss]))
            (max (max mf (torqueAt ss i / inputGear (ss ! i))) (torqueAt ss i / outputGear (ss ! i)))"
      using 1(1) [OF True refl refl refl] t by simp
    also have "\<dots> = fold max (concat (map (shaftForces ss) [i..<length ss])) mf"
      using True by (simp add: upt_conv_Cons f m)
    finally show ?thesis .
  next
    case False
    then show ?thesis by (subst maxForce_loop.simps) simp
  qed
qed

text \<open>
  Claim C9. For a train with at least one shaft (and positive tooth counts),
  \<open>maxForce\<close> is the maximum of the candidate forces: the torque is 1 on the first
  shaft and is multiplied by \<open>inputGear[i] / outputGear[i-1]\<close> at each boundary; the
  first shaft contributes \<open>torque / inputGear\<close>, every later shaft both
  \<open>torque / inputGear\<close> and \<open>torque / outputGear\<close>.
\<close>

theorem maxForce_is_max_of_candidates:
  assumes "ss \<noteq> []" and "positiveTeeth ss"
  shows "maxForce (GearTrain ss) = Some (Max (set (candidateForces ss)))"
proof -
  have n: "0 < length ss" using assms(1) by simp
  have c: "candidateForces ss =
      (1 / inputGear (ss ! 0)) # concat (map (shaftForces ss) [1..<length ss])"
    using n by (simp add: candidateForces_def upt_conv_Cons shaftForces_def)
  have "maxForce_loop ss 1 1 (1 / inputGear (ss ! 0)) =
        fold max (concat (map (shaftForces ss) [1..<length ss])) (1 / inputGear (ss ! 0))"
    by (rule maxForce_loop_fold) simp_all
  also have "\<dots> = Max (set (candidateForces ss))"
    by (simp only: c Max.set_eq_fold)
  finally show ?thesis using assms(1) by (simp add: GearTrain_fields)
qed

theorem maxForce_is_max_of_candidates_witness:
  "demoShafts \<noteq> [] \<and> positiveTeeth demoShafts
   \<and> maxForce (GearTrain demoShafts) = Some (1 / 15)"
proof -
  have "Max (set (candidateForces demoShafts)) = 1 / 15"
    by code_simp
  then show ?thesis
    using maxForce_is_max_of_candidates [OF demoShafts_ok] demoShafts_ok by simp
qed

subsection \<open>The spacing query\<close>

lemma shaftDistance_loop_sum:
  "1 \<le> i \<Longrightarrow> i \<le> int (length ss) \<Longrightarrow>
   shaftDistance_loop ss m i (int (length ss)) d =
     Inr (d + (\<Sum>k = nat i..<length ss. (outputGear (ss ! (k - 1)) * m + inputGear (ss ! (k - 1)) * m) / 2))"
proof (induction ss m i "int (length ss)" d rule: shaftDistance_loop.induct)
  case (1 ss m i d)
  show ?case
  proof (cases "i < int (length ss)")
    case True
    have n: "nat (i + 1) = Suc (nat i)" "nat (i - 1) = nat i - 1" "nat i < length ss"
      using True 1(2) by auto
    show ?thesis
      using True 1(2) 1(1) [OF True _ refl refl]
      by (subst shaftDistance_loop.simps) (simp add: Let_def n sum.atLeast_Suc_lessThan)
  next
    case False
    then show ?thesis using 1(3) by (subst shaftDistance_loop.simps) simp
  qed
qed

text \<open>
  Claim C10. The spacing query returns 0 whenever the first shaft index exceeds the
  number of shafts minus 2, so on every train of zero or one shafts queried from a
  shaft index (a number from 0 on); a last shaft of -1 stands for the number of
  shafts, and then the window runs to the final shaft: the query adds up, for every
  \<open>i\<close> after the first shaft up to the last index, the mean of the two pitch
  diameters of shaft \<open>i - 1\<close>.
\<close>

theorem shaftDistance_window:
  "(firstShaft > int (length (shafts t)) - 2 \<longrightarrow> shaftDistance t m firstShaft lastShaft = Inr 0)
   \<and> (length (shafts t) \<le> 1 \<and> 0 \<le> firstShaft \<longrightarrow> shaftDistance t m firstShaft lastShaft = Inr 0)
   \<and> shaftDistance t m firstShaft (- 1) = shaftDistance t m firstShaft (int (length (shafts t)))
   \<and> (0 \<le> firstShaft \<and> firstShaft \<le> int (length (shafts t)) - 2 \<longrightarrow>
        shaftDistance t m firstShaft (- 1) =
          Inr (\<Sum>i = nat firstShaft + 1..<length (shafts t).
                 (outputGear (shafts t ! (i - 1)) * m + inputGear (shafts t ! (i - 1)) * m) / 2))"
proof (intro conjI impI)
  assume a: "0 \<le> firstShaft \<and> firstShaft \<le> int (length (shafts t)) - 2"
  then have "nat (firstShaft + 1) = nat firstShaft + 1" by (simp add: nat_add_distrib)
  then show "shaftDistance t m firstShaft (- 1) =
          Inr (\<Sum>i = nat firstShaft + 1..<length (shafts t).
                 (outputGear (shafts t ! (i - 1)) * m + inputGear (shafts t ! (i - 1)) * m) / 2)"
    using a shaftDistance_loop_sum [of "firstShaft + 1" "shafts t" m 0]
    by (simp add: shaftDistance_def)
qed (auto simp: shaftDistance_def)

theorem shaftDistance_window_witness:
  "shaftDistance (GearTrain [Shaft 20 0 0]) 1 0 (- 1) = Inr 0
   \<and> shaftDistance (GearTrain demoShafts) 1 0 (- 1) = Inr 55"
proof -
  have a: "shaftDistance (GearTrain [Shaft 20 0 0]) 1 0 (- 1) = Inr 0"
    using shaftDistance_window [of "GearTrain [Shaft 20 0 0]" 0 1 "- 1"] by simp
  have b: "shaftDistance (GearTrain demoShafts) 1 0 (- 1) = Inr 55"
    using shaftDistance_window [of "GearTrain demoShafts" 0 1 "- 1"]
    by (auto simp: demoShafts_nth numeral_3_eq_3 sum.atLeast_Suc_lessThan Shaft_def)
  from a b show ?thesis by simp
qed

subsection \<open>Completion is final\<close>

lemma iterateShafts_True:
  "iterateShafts cfg st = Inr (True, st') \<Longrightarrow> permutationStack st = []"
  by (auto simp: iterateShafts_def Let_def
      split: list.splits sum.splits if_splits prod.splits option.splits)

lemma iterate_True:
  "iterate cfg st = Inr (True, st') \<Longrightarrow>
   st' = st
   \<and> inputGearIndex st
       \<ge> length (if sharedInputGearSet cfg then changeGearSet cfg else inputGearSet cfg)
   \<and> permutationStack st = []"
  by (auto simp: iterate_def Let_def dest!: iterateShafts_True split: if_splits)

lemma steps_done: "iterate cfg st = Inr (True, st) \<Longrightarrow> steps cfg n st = Inr st"
  by (induction n) simp_all

text \<open>
  Claim C7. When a call of \<open>iterate\<close> reports completion, the input cursor is past
  its pool and the stack is empty, the engine is left as it was, the next call reports
  completion again, and any number of further calls leaves the engine unchanged.
\<close>

theorem iterate_after_completion:
  assumes "iterate cfg st = Inr (True, st')"
  shows "st' = st
    \<and> inputGearIndex st'
        \<ge> length (if sharedInputGearSet cfg then changeGearSet cfg else inputGearSet cfg)
    \<and> permutationStack st' = []
    \<and> iterate cfg st' = Inr (True, st')
    \<and> (\<forall>n. steps cfg n st' = Inr st')"
  using assms iterate_True [OF assms] steps_done by auto

theorem iterate_after_completion_witness:
  "\<exists>st. steps demoSettings 3 demoStart = Inr st
      \<and> iterate demoSettings st = Inr (True, st)
      \<and> steps demoSettings 7 st = Inr st"
proof -
  have "case steps demoSettings 3 demoStart of
          Inl e \<Rightarrow> False
        | Inr st \<Rightarrow> iterate demoSettings st = Inr (True, st)"
    by code_simp
  then obtain st where st: "steps demoSettings 3 demoStart = Inr st"
      "iterate demoSettings st = Inr (True, st)"
    by (auto split: sum.splits)
  from iterate_after_completion [OF st(2)] st show ?thesis by blast
qed

subsection \<open>Accepted trains\<close>

lemma length_js_set: "i < length xs \<Longrightarrow> length (js_set xs i v) = length xs"
  by (simp add: js_set_def)

lemma js_get_Some: "js_get xs i = Some v \<Longrightarrow> 0 \<le> i \<and> nat i < length xs \<and> xs ! nat i = Some v"
  by (auto simp: js_get_def split: if_splits)

lemma GearTrain_of_Inr:
  "GearTrain_of xs = Inr t \<Longrightarrow> shafts t = map the xs \<and> None \<notin> set xs"
  by (auto simp: GearTrain_of_def split: if_splits)

lemma finalShaft_body_cases:
  assumes "finalShaft_body cfg cur avail k st = Inr st'"
  obtains
    (dup) "st' = st\<lparr>skippedSolutions := skippedSolutions st + 1\<rparr>"
  | (violated) xs where
      "xs = js_set (engineShafts st) cur (Shaft (avail ! k) 0 (engineSpacerSize cfg))"
      "st' = st\<lparr>engineShafts := xs, skippedSolutions := skippedSolutions st + 1\<rparr>"
  | (discarded) xs where
      "xs = js_set (engineShafts st) cur (Shaft (avail ! k) 0 (engineSpacerSize cfg))"
      "st' = st\<lparr>engineShafts := xs, discardedSolutions := discardedSolutions st + 1\<rparr>"
  | (found) xs inp outp t where
      "xs = js_set (engineShafts st) cur (Shaft (avail ! k) 0 (engineSpacerSize cfg))"
      "js_get xs (int cur - 1) = Some inp" "js_get xs (int cur) = Some outp"
      "\<not> shaftsInterfere inp outp (engineAddendum cfg)"
      "GearTrain_of xs = Inr t"
      "st' = st\<lparr>engineShafts := xs, gearTrains := gearTrains st @ [t],
                 foundSolutions := foundSolutions st + 1\<rparr>"
  using assms
  by (auto simp: finalShaft_body_def Let_def registerGearTrain_def
      split: if_splits sum.splits option.splits prod.splits)

lemma finalShaft_body_trains:
  assumes body: "finalShaft_body cfg cur avail k st = Inr st'"
    and cur: "cur + 1 = length (engineShafts st)"
    and ok: "\<forall>t\<in>set (gearTrains st). clearsLastPair (engineAddendum cfg) t"
  shows "length (engineShafts st') = length (engineShafts st)
       \<and> (\<forall>t\<in>set (gearTrains st'). clearsLastPair (engineAddendum cfg) t)"
proof -
  have len: "length (js_set (engineShafts st) cur v) = length (engineShafts st)" for v
    using cur by (simp add: length_js_set)
  from body show ?thesis
  proof (cases rule: finalShaft_body_cases)
    case dup
    then show ?thesis using ok by simp
  next
    case (violated xs)
    then show ?thesis using ok len by simp
  next
    case (discarded xs)
    then show ?thesis using ok len by simp
  next
    case (found xs inp outp t)
    have lx: "length xs = cur + 1" using found(1) len cur by simp
    from js_get_Some [OF found(2)] have c: "1 \<le> cur" "xs ! (cur - 1) = Some inp"
      by (auto simp: nat_diff_distrib)
    from js_get_Some [OF found(3)] have d: "xs ! cur = Some outp" by simp
    from GearTrain_of_Inr [OF found(5)] have t: "shafts t = map the xs" by simp
    have "clearsLastPair (engineAddendum cfg) t"
      using c d lx found(4) by (simp add: clearsLastPair_def t)
    then show ?thesis using found(6) found(1) ok len by simp
  qed
qed

lemma finalShaft_loop_trains:
  assumes "finalShaft_loop cfg cur avail k st = Inr st'"
    and "cur + 1 = length (engineShafts st)"
    and "\<forall>t\<in>set (gearTrains st). clearsLastPair (engineAddendum cfg) t"
  shows "\<forall>t\<in>set (gearTrains st'). clearsLastPair (engineAddendum cfg) t"
  using assms
proof (induction cfg cur avail k st rule: finalShaft_loop.induct)
  case (1 cfg cur avail k st)
  show ?case
  proof (cases "k < length avail")
    case True
    with "1.prems"(1) obtain st1 where b: "finalShaft_body cfg cur avail k st = Inr st1"
      and l: "finalShaft_loop cfg cur avail (k + 1) st1 = Inr st'"
      by (subst (asm) finalShaft_loop.simps) (auto split: sum.splits)
    from finalShaft_body_trains [OF b "1.prems"(2,3)] "1.IH" [OF True b l] "1.prems"(2)
    show ?thesis by simp
  next
    case False
    with "1.prems" show ?thesis by (subst (asm) finalShaft_loop.simps) simp
  qed
qed

lemma iterateShafts_trains:
  assumes "iterateShafts cfg st = Inr (b, st')"
    and "\<forall>t\<in>set (gearTrains st). clearsLastPair (engineAddendum cfg) t"
  shows "\<forall>t\<in>set (gearTrains st'). clearsLastPair (engineAddendum cfg) t"
proof (cases "permutationStack st")
  case Nil
  with assms show ?thesis by (simp add: iterateShafts_def)
next
  case (Cons fr rest)
  show ?thesis
  proof (cases "int (currentShaft fr) = int (length (engineShafts st)) - 1")
    case True
    with assms(1) Cons obtain st1 where
      l: "finalShaft_loop cfg (currentShaft fr) (availableGears fr) 0 (st\<lparr>permutationStack := rest\<rparr>) = Inr st1"
      and "st' = st1"
      by (auto simp: iterateShafts_def Let_def split: sum.splits)
    moreover have "currentShaft fr + 1 = length (engineShafts (st\<lparr>permutationStack := rest\<rparr>))"
      using True by simp
    ultimately show ?thesis
      using finalShaft_loop_trains [OF l] assms(2) by simp
  next
    case False
    with assms Cons show ?thesis
      by (auto simp: iterateShafts_def Let_def split: if_splits prod.splits option.splits)
  qed
qed

lemma iterate_trains:
  assumes "iterate cfg st = Inr (b, st')"
    and "\<forall>t\<in>set (gearTrains st). clearsLastPair (engineAddendum cfg) t"
  shows "\<forall>t\<in>set (gearTrains st'). clearsLastPair (engineAddendum cfg) t"
  using assms
  by (auto simp: iterate_def Let_def split: if_splits dest!: iterateShafts_trains)

lemma steps_trains:
  "steps cfg n st = Inr st' \<Longrightarrow>
   \<forall>t\<in>set (gearTrains st). clearsLastPair (engineAddendum cfg) t \<Longrightarrow>
   \<forall>t\<in>set (gearTrains st'). clearsLastPair (engineAddendum cfg) t"
proof (induction n arbitrary: st)
  case 0
  then show ?case by simp
next
  case (Suc n)
  from Suc.prems(1) obtain b st1 where i: "iterate cfg st = Inr (b, st1)"
    and s: "steps cfg n st1 = Inr st'"
    by (auto split: sum.splits)
  from iterate_trains [OF i Suc.prems(2)] Suc.IH [OF s] show ?case by blast
qed

lemma setup_trains: "setupCalculation cfg ts = Inr st \<Longrightarrow> gearTrains st = ts"
  by (auto simp: setupCalculation_def Let_def split: if_splits option.splits)

text \<open>
  Claim C8. Every gear train in the results of an engine that was set up with no
  results and then advanced any number of times has at least two shafts, and the
  interference predicate is false of its second-to-last and last shaft with the
  configured addendum.
\<close>

theorem accepted_trains_clear_last_pair:
  assumes "setupCalculation cfg [] = Inr st0" and "steps cfg n st0 = Inr st"
    and "t \<in> set (gearTrains st)"
  shows "2 \<le> length (shafts t)
       \<and> \<not> shaftsInterfere (shafts t ! (length (shafts t) - 2))
             (shafts t ! (length (shafts t) - 1)) (engineAddendum cfg)"
  using steps_trains [OF assms(2)] setup_trains [OF assms(1)] assms(3)
  by (simp add: clearsLastPair_def)

theorem accepted_trains_clear_last_pair_witness:
  "\<exists>st t. setupCalculation demoSettings [] = Inr demoStart
      \<and> steps demoSettings 3 demoStart = Inr st
      \<and> t \<in> set (gearTrains st)
      \<and> 2 \<le> length (shafts t)
      \<and> \<not> shaftsInterfere (shafts t ! (length (shafts t) - 2))
            (shafts t ! (length (shafts t) - 1)) (engineAddendum demoSettings)"
proof -
  have "case steps demoSettings 3 demoStart of
          Inl e \<Rightarrow> False
        | Inr st \<Rightarrow> gearTrains st \<noteq> []"
    by code_simp
  then obtain st where st: "steps demoSettings 3 demoStart = Inr st" "gearTrains st \<noteq> []"
    by (auto split: sum.splits)
  then have t: "hd (gearTrains st) \<in> set (gearTrains st)" by simp
  from accepted_trains_clear_last_pair [OF demo_setup st(1) t] demo_setup st(1) t
  show ?thesis by blast
qed

subsection \<open>The counters\<close>

lemma length_splice1: "i < length xs \<Longrightarrow> length (splice1 i xs) = length xs - 1"
  by (simp add: splice1_def)

lemma length_remainingAfter:
  "i < length xs \<Longrightarrow> oi < length xs \<Longrightarrow>
   int (length (remainingAfter xs i oi)) = (if i = oi then int (length xs) - 1 else int (length xs) - 2)"
  by (auto simp: remainingAfter_def length_splice1)

lemma iterateShafts_nonfinal_cases:
  assumes it: "iterateShafts cfg st = Inr (b, st')"
    and stack: "permutationStack st = fr # rest"
    and nonfinal: "int (currentShaft fr) \<noteq> int (length (engineShafts st)) - 1"
    and nc: "normalisedCursor fr = (oi, ii)"
  obtains
    (exhausted) "length (availableGears fr) \<le> ii" "st' = st\<lparr>permutationStack := rest\<rparr>"
  | (skipped) xs n where
      "ii < length (availableGears fr)" "ii \<noteq> oi"
      "xs = js_set (engineShafts st) (currentShaft fr)
              (Shaft (availableGears fr ! ii) (availableGears fr ! oi) (engineSpacerSize cfg))"
      "calculatePermutationCount (int (length xs) - int (currentShaft fr) - 1)
         (int (length (remainingAfter (availableGears fr) ii oi))) = Some n"
      "st' = st\<lparr>engineShafts := xs,
                 permutationStack := fr\<lparr>outputIndex := oi + 1, inputIndex := ii\<rparr> # rest,
                 skippedSolutions := skippedSolutions st + n\<rparr>"
  | (descend) xs where
      "ii < length (availableGears fr)"
      "xs = js_set (engineShafts st) (currentShaft fr)
              (Shaft (availableGears fr ! ii) (if ii = oi then 0 else availableGears fr ! oi)
                 (engineSpacerSize cfg))"
      "st' = st\<lparr>engineShafts := xs,
                 permutationStack :=
                   \<lparr>availableGears = remainingAfter (availableGears fr) ii oi,
                    currentShaft = currentShaft fr + 1, inputIndex = 0, outputIndex = 0\<rparr>
                   # fr\<lparr>outputIndex := oi + 1, inputIndex := ii\<rparr> # rest\<rparr>"
  using it stack nonfinal nc
  by (simp add: iterateShafts_def Let_def normalisedCursor_def remainingAfter_def
      split: if_splits prod.splits option.splits)


lemma left_normalised:
  assumes "oi \<le> g" and "(oi', ii') = (if oi \<ge> g then (0, ii + 1) else (oi, ii))"
  shows "cellsLeft g ii' oi' = cellsLeft g ii oi \<and> singlesLeft g ii' oi' = singlesLeft g ii oi"
proof (cases "oi < g")
  case True
  with assms show ?thesis by simp
next
  case False
  with assms have e: "oi = g" "oi' = 0" "ii' = ii + 1" by simp_all
  consider "g \<le> ii" | "ii + 1 = g" | "ii + 1 < g" by linarith
  then show ?thesis
  proof cases
    case 1
    then show ?thesis by (simp add: e cellsLeft_def singlesLeft_def)
  next
    case 2
    then have "int g = int ii + 1" by simp
    with 2 show ?thesis by (simp add: e cellsLeft_def singlesLeft_def)
  next
    case 3
    then show ?thesis by (simp add: e cellsLeft_def singlesLeft_def algebra_simps)
  qed
qed

lemma left_exhausted:
  "g \<le> ii \<Longrightarrow> cellsLeft g ii oi = 0 \<and> singlesLeft g ii oi = 0"
  by (simp add: cellsLeft_def singlesLeft_def)

lemma left_step:
  assumes "ii < g" and "oi < g"
  shows "cellsLeft g ii oi = cellsLeft g ii (oi + 1) + 1"
    and "singlesLeft g ii oi = singlesLeft g ii (oi + 1) + (if ii = oi then 1 else 0)"
  using assms by (auto simp: cellsLeft_def singlesLeft_def)

lemma left_fresh:
  "cellsLeft g 0 0 = int g * int g" "singlesLeft g 0 0 = int g"
  by (auto simp: cellsLeft_def singlesLeft_def)

lemma pending_fresh:
  assumes "1 \<le> c" and "c < S"
  shows "pending S \<lparr>availableGears = xs, currentShaft = c, inputIndex = 0, outputIndex = 0\<rparr>
         = permCount (S - c - 1) (int (length xs))"
proof (cases "c + 1 = S")
  case True
  then show ?thesis by (simp add: pending_def)
next
  case False
  with assms have "S - c - 1 = Suc (S - c - 2)" by simp
  then show ?thesis
    using False by (simp add: pending_def Let_def left_fresh algebra_simps)
qed

lemma finalShaft_body_counts:
  assumes "finalShaft_body cfg cur avail k st = Inr st'"
    and "cur < length (engineShafts st)"
  shows "settled st' = settled st + 1 \<and> bookkeeping st' = bookkeeping st
       \<and> length (engineShafts st') = length (engineShafts st)"
  using assms(1)
proof (cases rule: finalShaft_body_cases)
  case dup
  then show ?thesis by (simp add: settled_def bookkeeping_def)
next
  case (violated xs)
  then show ?thesis using assms(2) by (simp add: settled_def bookkeeping_def length_js_set)
next
  case (discarded xs)
  then show ?thesis using assms(2) by (simp add: settled_def bookkeeping_def length_js_set)
next
  case (found xs inp outp t)
  then show ?thesis using assms(2) by (simp add: settled_def bookkeeping_def length_js_set)
qed

lemma finalShaft_loop_counts:
  assumes "finalShaft_loop cfg cur avail k st = Inr st'"
    and "cur < length (engineShafts st)"
  shows "settled st' = settled st + int (length avail - k) \<and> bookkeeping st' = bookkeeping st
       \<and> length (engineShafts st') = length (engineShafts st)"
  using assms
proof (induction cfg cur avail k st rule: finalShaft_loop.induct)
  case (1 cfg cur avail k st)
  show ?case
  proof (cases "k < length avail")
    case True
    with "1.prems"(1) obtain st1 where b: "finalShaft_body cfg cur avail k st = Inr st1"
      and l: "finalShaft_loop cfg cur avail (k + 1) st1 = Inr st'"
      by (subst (asm) finalShaft_loop.simps) (auto split: sum.splits)
    note c = finalShaft_body_counts [OF b "1.prems"(2)]
    from c "1.prems"(2) have "cur < length (engineShafts st1)" by simp
    from "1.IH" [OF True b l this] c True show ?thesis by simp
  next
    case False
    with "1.prems" show ?thesis by (subst (asm) finalShaft_loop.simps) simp
  qed
qed

lemma iterateShafts_preserves:
  assumes it: "iterateShafts cfg st = Inr (b, st')"
    and S: "length (engineShafts st) = S"
    and ok: "list_all (frameOK S) (permutationStack st)"
  shows "length (engineShafts st') = S \<and> list_all (frameOK S) (permutationStack st')
       \<and> settled st' + pendingStack S st' = settled st + pendingStack S st
       \<and> int (length (gearTrains st')) - foundSolutions st'
           = int (length (gearTrains st)) - foundSolutions st
       \<and> inputGearIndex st' = inputGearIndex st \<and> permutationCount st' = permutationCount st"
proof (cases "permutationStack st")
  case Nil
  with it S ok show ?thesis by (simp add: iterateShafts_def)
next
  case (Cons fr rest)
  from ok Cons have fr: "1 \<le> currentShaft fr" "currentShaft fr < S"
      "outputIndex fr \<le> length (availableGears fr)"
    and rest: "list_all (frameOK S) rest"
    by (simp_all add: frameOK_def)
  define g where "g = length (availableGears fr)"
  define c where "c = currentShaft fr"
  show ?thesis
  proof (cases "int (currentShaft fr) = int (length (engineShafts st)) - 1")
    case True
    with it Cons obtain st1 where
      l: "finalShaft_loop cfg (currentShaft fr) (availableGears fr) 0 (st\<lparr>permutationStack := rest\<rparr>) = Inr st1"
      and e: "st' = st1"
      by (auto simp: iterateShafts_def Let_def split: sum.splits)
    have "currentShaft fr < length (engineShafts (st\<lparr>permutationStack := rest\<rparr>))"
      using fr S by simp
    from finalShaft_loop_counts [OF l this]
    have "settled st1 = settled st + int g" "bookkeeping st1 = bookkeeping (st\<lparr>permutationStack := rest\<rparr>)"
      "length (engineShafts st1) = S"
      using S by (simp_all add: settled_def g_def)
    moreover have "pending S fr = int g"
      using True S by (simp add: pending_def Let_def g_def)
    ultimately show ?thesis
      using e Cons rest by (simp add: bookkeeping_def pendingStack_def)
  next
    case False
    then have nf: "c + 1 \<noteq> S" using S by (simp add: c_def)
    with fr have c2: "c + 1 < S" by (simp add: c_def)
    obtain oi ii where nc: "normalisedCursor fr = (oi, ii)" by (cases "normalisedCursor fr")
    then have nc': "(oi, ii) = (if outputIndex fr \<ge> g then (0, inputIndex fr + 1)
                                 else (outputIndex fr, inputIndex fr))"
      by (simp add: normalisedCursor_def g_def)
    from left_normalised [OF _ nc'] fr(3)
    have norm: "cellsLeft g ii oi = cellsLeft g (inputIndex fr) (outputIndex fr)"
      "singlesLeft g ii oi = singlesLeft g (inputIndex fr) (outputIndex fr)"
      by (simp_all add: g_def)
    define A where "A = permCount (S - c - 2) (int g - 1)"
    define B where "B = permCount (S - c - 2) (int g - 2)"
    have pfr: "pending S fr = singlesLeft g ii oi * A + (cellsLeft g ii oi - singlesLeft g ii oi) * B"
      using nf unfolding norm by (simp add: pending_def Let_def A_def B_def g_def c_def)
    have lenset: "length (js_set (engineShafts st) (currentShaft fr) v) = S" for v
      using fr(2) S by (simp add: length_js_set)
    from it Cons False nc show ?thesis
    proof (cases rule: iterateShafts_nonfinal_cases)
      case exhausted
      then have "pending S fr = 0"
        using pfr left_exhausted [of g ii oi] by (simp add: g_def)
      with exhausted Cons rest S show ?thesis
        by (simp add: pendingStack_def settled_def)
    next
      case (skipped xs n)
      have oig: "oi < g" using nc' skipped(1) by (auto simp: g_def split: if_splits)
      have iig: "ii < g" using skipped(1) by (simp add: g_def)
      let ?fr' = "fr\<lparr>outputIndex := oi + 1, inputIndex := ii\<rparr>"
      have ok': "frameOK S ?fr'" using fr oig by (simp add: frameOK_def g_def)
      have p': "pending S ?fr' = singlesLeft g ii (oi + 1) * A
                   + (cellsLeft g ii (oi + 1) - singlesLeft g ii (oi + 1)) * B"
        using nf by (simp add: pending_def Let_def A_def B_def g_def c_def)
      have "int (length xs) - int (currentShaft fr) - 1 \<ge> 1"
        using skipped(3) lenset c2 by (simp add: c_def)
      from calculatePermutationCount_returns [OF this] skipped(4)
      have "n = permCount (nat (int (length xs) - int (currentShaft fr) - 1 - 1))
                  (int (length (remainingAfter (availableGears fr) ii oi)))"
        by simp
      moreover have "nat (int (length xs) - int (currentShaft fr) - 1 - 1) = S - c - 2"
        using skipped(3) lenset c2 by (simp add: c_def nat_diff_distrib)
      moreover have "int (length (remainingAfter (availableGears fr) ii oi)) = int g - 2"
        using length_remainingAfter [of ii "availableGears fr" oi] iig oig skipped(2)
        by (simp add: g_def)
      ultimately have n: "n = B" by (simp add: B_def)
      have "pending S fr = pending S ?fr' + B"
        unfolding pfr p' using left_step [OF iig oig] skipped(2) by (simp add: algebra_simps)
      with skipped(5) skipped(3) Cons rest ok' lenset n show ?thesis
        by (simp add: pendingStack_def settled_def)
    next
      case (descend xs)
      have oig: "oi < g" using nc' descend(1) by (auto simp: g_def split: if_splits)
      have iig: "ii < g" using descend(1) by (simp add: g_def)
      let ?fr' = "fr\<lparr>outputIndex := oi + 1, inputIndex := ii\<rparr>"
      let ?new = "\<lparr>availableGears = remainingAfter (availableGears fr) ii oi,
                    currentShaft = currentShaft fr + 1, inputIndex = 0, outputIndex = 0\<rparr>"
      have ok': "frameOK S ?fr'" using fr oig by (simp add: frameOK_def g_def)
      have okn: "frameOK S ?new" using c2 by (simp add: frameOK_def c_def)
      have p': "pending S ?fr' = singlesLeft g ii (oi + 1) * A
                   + (cellsLeft g ii (oi + 1) - singlesLeft g ii (oi + 1)) * B"
        using nf by (simp add: pending_def Let_def A_def B_def g_def c_def)
      have "pending S ?new = permCount (S - (c + 1) - 1)
               (int (length (remainingAfter (availableGears fr) ii oi)))"
        using pending_fresh [of "c + 1" S] c2 by (simp add: c_def)
      moreover have "int (length (remainingAfter (availableGears fr) ii oi))
            = (if ii = oi then int g - 1 else int g - 2)"
        using length_remainingAfter [of ii "availableGears fr" oi] iig oig by (simp add: g_def)
      moreover have "S - (c + 1) - 1 = S - c - 2" by simp
      ultimately have pn: "pending S ?new = (if ii = oi then A else B)"
        by (simp add: A_def B_def)
      have "pending S fr = pending S ?fr' + pending S ?new"
        unfolding pfr p' pn using left_step [OF iig oig] by (simp add: algebra_simps)
      with descend(3) descend(2) Cons rest ok' okn lenset show ?thesis
        by (simp add: pendingStack_def settled_def)
    qed
  qed
qed

lemma setup_countInv:
  assumes "2 \<le> shaftCount cfg" and "setupCalculation cfg [] = Inr st"
  shows "countInv cfg st"
proof -
  define S where "S = nat (shaftCount cfg)"
  have S: "2 \<le> S" "int S - 1 \<ge> 1" "nat (int S - 1 - 1) = S - 2"
    using assms(1) by (simp_all add: S_def)
  have c: "calculatePermutationCount (int S - 1) g = Some (permCount (S - 2) g)" for g
    using calculatePermutationCount_returns [OF S(2), of g] S(3) by simp
  from assms(2) S(1) show ?thesis
    by (auto simp: setupCalculation_def Let_def countInv_def settled_def pendingStack_def
        firstGearSet_def seedPoolSize_def c S_def [symmetric] split: if_splits)
qed

lemma iterate_countInv:
  assumes it: "iterate cfg st = Inr (b, st')" and inv: "countInv cfg st"
  shows "countInv cfg st'"
proof -
  define S where "S = length (engineShafts st)"
  from inv have S2: "2 \<le> S" and ok: "list_all (frameOK S) (permutationStack st)"
    and tr: "int (length (gearTrains st)) = foundSolutions st"
    and sum: "settled st + pendingStack S st
              + int (length (firstGearSet cfg) - inputGearIndex st)
                * permCount (S - 2) (seedPoolSize cfg) = permutationCount st"
    by (simp_all add: countInv_def Let_def S_def)
  consider (finished) "st' = st"
    | (stack) "permutationStack st \<noteq> []" "iterateShafts cfg st = Inr (b, st')"
    | (seed) "permutationStack st = []" "inputGearIndex st < length (firstGearSet cfg)"
        "iterateShafts cfg
           (st\<lparr>engineShafts := js_set (engineShafts st) 0
                  (Shaft (firstGearSet cfg ! inputGearIndex st) 0 (inputAdjacentSize cfg)),
               permutationStack :=
                 [\<lparr>availableGears =
                     (if sharedInputGearSet cfg
                      then remove1 (firstGearSet cfg ! inputGearIndex st) (changeGearSet cfg)
                      else changeGearSet cfg),
                   currentShaft = 1, inputIndex = 0, outputIndex = 0\<rparr>],
               inputGearIndex := inputGearIndex st + 1\<rparr>) = Inr (b, st')"
    using it by (auto simp: iterate_def Let_def firstGearSet_def split: if_splits)
  then show ?thesis
  proof cases
    case finished
    with inv show ?thesis by simp
  next
    case stack
    from iterateShafts_preserves [OF stack(2) S_def [symmetric] ok] S2 tr sum
    show ?thesis by (simp add: countInv_def Let_def)
  next
    case seed
    let ?pool = "if sharedInputGearSet cfg
                 then remove1 (firstGearSet cfg ! inputGearIndex st) (changeGearSet cfg)
                 else changeGearSet cfg"
    let ?fr = "\<lparr>availableGears = ?pool, currentShaft = 1, inputIndex = 0, outputIndex = 0\<rparr>"
    let ?st1 = "st\<lparr>engineShafts := js_set (engineShafts st) 0
                  (Shaft (firstGearSet cfg ! inputGearIndex st) 0 (inputAdjacentSize cfg)),
               permutationStack := [?fr], inputGearIndex := inputGearIndex st + 1\<rparr>"
    have "0 < length (engineShafts st)" using S2 unfolding S_def by linarith
    then have len: "length (engineShafts ?st1) = S"
      by (simp add: S_def length_js_set)
    have okfr: "list_all (frameOK S) (permutationStack ?st1)"
      using S2 by (simp add: frameOK_def)
    have "int (length ?pool) = seedPoolSize cfg"
      using seed(2)
      by (auto simp: seedPoolSize_def firstGearSet_def length_remove1 of_nat_diff Suc_leI)
    then have pfr: "pending S ?fr = permCount (S - 2) (seedPoolSize cfg)"
      using pending_fresh [of 1 S ?pool] S2
      by (simp add: numeral_2_eq_2 del: One_nat_def)
    have ps: "pendingStack S st = 0" using seed(1) by (simp add: pendingStack_def)
    have idx: "int (length (firstGearSet cfg) - inputGearIndex st)
             = int (length (firstGearSet cfg) - (inputGearIndex st + 1)) + 1"
      using seed(2) by simp
    from iterateShafts_preserves [OF seed(3) len okfr]
    have "length (engineShafts st') = S" "list_all (frameOK S) (permutationStack st')"
      "settled st' + pendingStack S st' = settled st + pending S ?fr"
      "int (length (gearTrains st')) - foundSolutions st'
         = int (length (gearTrains st)) - foundSolutions st"
      "inputGearIndex st' = inputGearIndex st + 1" "permutationCount st' = permutationCount st"
      by (simp_all add: pendingStack_def settled_def)
    with S2 tr sum ps show ?thesis
      unfolding idx pfr by (simp add: countInv_def Let_def algebra_simps)
  qed
qed

lemma steps_countInv:
  "steps cfg n st = Inr st' \<Longrightarrow> countInv cfg st \<Longrightarrow> countInv cfg st'"
proof (induction n arbitrary: st)
  case 0
  then show ?case by simp
next
  case (Suc n)
  from Suc.prems(1) obtain b st1 where i: "iterate cfg st = Inr (b, st1)"
    and s: "steps cfg n st1 = Inr st'"
    by (auto split: sum.splits)
  from Suc.IH [OF s iterate_countInv [OF i Suc.prems(2)]] show ?case .
qed

subsection \<open>The search runs to completion\<close>

lemma definedBelow_js_set:
  "definedBelow c xs \<Longrightarrow> cur < length xs \<Longrightarrow> definedBelow c (js_set xs cur v)"
  by (simp add: definedBelow_def js_set_def nth_list_update)

lemma definedBelow_js_set_Suc:
  "definedBelow cur xs \<Longrightarrow> cur < length xs \<Longrightarrow> definedBelow (Suc cur) (js_set xs cur v)"
  by (auto simp: definedBelow_def js_set_def nth_list_update less_Suc_eq)

lemma definedBelow_mono: "definedBelow c xs \<Longrightarrow> c' \<le> c \<Longrightarrow> definedBelow c' xs"
  by (simp add: definedBelow_def)

lemma GearTrain_of_defined:
  "definedBelow n xs \<Longrightarrow> GearTrain_of (take n xs) = Inr (GearTrain (map the (take n xs)))"
  by (auto simp: GearTrain_of_def definedBelow_def in_set_conv_nth)

lemma shaftDistance_default_returns:
  "\<exists>d. shaftDistance t m 0 (- 1) = Inr d"
proof (cases "0 > int (length (shafts t)) - 2")
  case True
  then show ?thesis by (simp add: shaftDistance_def)
next
  case False
  then show ?thesis
    using shaftDistance_loop_sum [of 1 "shafts t" m 0] by (simp add: shaftDistance_def)
qed

lemma constraintsViolated_returns:
  assumes "definedBelow (cur + 1) xs"
  shows "\<exists>v. constraintsViolated cfg xs cur = Inr v"
proof -
  obtain d where "shaftDistance (GearTrain (map the (take (cur + 1) xs))) (engineModule cfg) 0 (- 1) = Inr d"
    using shaftDistance_default_returns by blast
  then show ?thesis
    using GearTrain_of_defined [OF assms]
    by (auto simp: constraintsViolated_def)
qed

lemma finalShaft_body_returns:
  assumes cur: "1 \<le> cur" "cur + 1 = length (engineShafts st)"
    and def: "definedBelow cur (engineShafts st)"
  shows "\<exists>st'. finalShaft_body cfg cur avail k st = Inr st'"
proof -
  let ?xs = "js_set (engineShafts st) cur (Shaft (avail ! k) 0 (engineSpacerSize cfg))"
  have d: "definedBelow (cur + 1) ?xs"
    using definedBelow_js_set_Suc [OF def] cur by simp
  then have len: "length ?xs = cur + 1" and all: "\<forall>i<cur + 1. ?xs ! i \<noteq> None"
    using cur by (simp_all add: definedBelow_def length_js_set)
  obtain v where v: "constraintsViolated cfg ?xs cur = Inr v"
    using constraintsViolated_returns [OF d] by blast
  from all cur obtain inp outp where io: "?xs ! (cur - 1) = Some inp" "?xs ! cur = Some outp"
    by (metis Suc_eq_plus1 diff_le_self le_imp_less_Suc lessI not_Some_eq)
  then have g: "js_get ?xs (int cur - 1) = Some inp" "js_get ?xs (int cur) = Some outp"
    using cur len by (simp_all add: js_get_def nat_diff_distrib)
  have "take (cur + 1) ?xs = ?xs" using len by simp
  with GearTrain_of_defined [OF d] have r: "\<exists>t. GearTrain_of ?xs = Inr t" by simp
  show ?thesis
    using v g r by (auto simp: finalShaft_body_def Let_def registerGearTrain_def)
qed


lemma finalShaft_body_defined:
  assumes "finalShaft_body cfg cur avail k st = Inr st'"
    and "cur < length (engineShafts st)"
    and "definedBelow c (engineShafts st)"
  shows "definedBelow c (engineShafts st')"
  using assms(1)
  by (cases rule: finalShaft_body_cases) (simp_all add: definedBelow_js_set assms(2,3))

lemma finalShaft_loop_returns:
  assumes "1 \<le> cur" and "cur + 1 = length (engineShafts st)"
    and "definedBelow cur (engineShafts st)"
  shows "\<exists>st'. finalShaft_loop cfg cur avail k st = Inr st'
           \<and> bookkeeping st' = bookkeeping st
           \<and> length (engineShafts st') = length (engineShafts st)
           \<and> (\<forall>c. definedBelow c (engineShafts st) \<longrightarrow> definedBelow c (engineShafts st'))"
  using assms
proof (induction cfg cur avail k st rule: finalShaft_loop.induct)
  case (1 cfg cur avail k st)
  show ?case
  proof (cases "k < length avail")
    case True
    obtain st1 where b: "finalShaft_body cfg cur avail k st = Inr st1"
      using finalShaft_body_returns [OF "1.prems"] by blast
    have lt: "cur < length (engineShafts st)" using "1.prems"(2) by simp
    note cnt = finalShaft_body_counts [OF b lt]
    have d1: "definedBelow cur (engineShafts st1)"
      using finalShaft_body_defined [OF b lt "1.prems"(3)] .
    have "cur + 1 = length (engineShafts st1)" using cnt "1.prems"(2) by simp
    from "1.IH" [OF True b "1.prems"(1) this d1]
    obtain st' where l: "finalShaft_loop cfg cur avail (k + 1) st1 = Inr st'"
      and r: "bookkeeping st' = bookkeeping st1"
        "length (engineShafts st') = length (engineShafts st1)"
        "\<forall>c. definedBelow c (engineShafts st1) \<longrightarrow> definedBelow c (engineShafts st')"
      by blast
    have "finalShaft_loop cfg cur avail k st = Inr st'"
      using True b l by (subst finalShaft_loop.simps) simp
    moreover have "\<forall>c. definedBelow c (engineShafts st) \<longrightarrow> definedBelow c (engineShafts st')"
      using r(3) finalShaft_body_defined [OF b lt] by blast
    ultimately show ?thesis using r cnt by simp
  next
    case False
    then show ?thesis by (subst finalShaft_loop.simps) simp
  qed
qed

lemma iterate_stack:
  "permutationStack st \<noteq> [] \<Longrightarrow> iterate cfg st = iterateShafts cfg st"
  by (simp add: iterate_def Let_def)

lemma steps_add:
  "steps cfg (m + n) st = (case steps cfg m st of Inl e \<Rightarrow> Inl e | Inr st1 \<Rightarrow> steps cfg n st1)"
  by (induction m arbitrary: st) (auto split: sum.splits)

lemma reachesPop_step:
  assumes "iterate cfg st = Inr (b, st1)" and "reachesPop cfg st1 rest"
    and "length (engineShafts st1) = length (engineShafts st)"
    and "inputGearIndex st1 = inputGearIndex st"
    and "\<forall>c. definedBelow c (engineShafts st) \<longrightarrow> definedBelow c (engineShafts st1)"
  shows "reachesPop cfg st rest"
proof -
  from assms(2) obtain n st' where n: "steps cfg n st1 = Inr st'" "permutationStack st' = rest"
      "length (engineShafts st') = length (engineShafts st1)"
      "inputGearIndex st' = inputGearIndex st1"
      "\<forall>c. definedBelow c (engineShafts st1) \<longrightarrow> definedBelow c (engineShafts st')"
    by (auto simp: reachesPop_def)
  have "steps cfg (Suc n) st = Inr st'" using assms(1) n(1) by simp
  then show ?thesis
    unfolding reachesPop_def using n assms(3,4,5) by (intro exI [of _ "Suc n"] exI [of _ st']) simp
qed

lemma reachesPop_trans:
  assumes "reachesPop cfg st mid"
    and "\<And>st1. permutationStack st1 = mid \<Longrightarrow>
           length (engineShafts st1) = length (engineShafts st) \<Longrightarrow>
           inputGearIndex st1 = inputGearIndex st \<Longrightarrow>
           (\<forall>c. definedBelow c (engineShafts st) \<longrightarrow> definedBelow c (engineShafts st1)) \<Longrightarrow>
           reachesPop cfg st1 rest"
  shows "reachesPop cfg st rest"
proof -
  from assms(1) obtain n st1 where n: "0 < n" "steps cfg n st = Inr st1"
      "permutationStack st1 = mid"
      "length (engineShafts st1) = length (engineShafts st)"
      "inputGearIndex st1 = inputGearIndex st"
      "\<forall>c. definedBelow c (engineShafts st) \<longrightarrow> definedBelow c (engineShafts st1)"
    by (auto simp: reachesPop_def)
  from assms(2) [OF n(3,4,5,6)] obtain m st' where m: "steps cfg m st1 = Inr st'"
      "permutationStack st' = rest"
      "length (engineShafts st') = length (engineShafts st1)"
      "inputGearIndex st' = inputGearIndex st1"
      "\<forall>c. definedBelow c (engineShafts st1) \<longrightarrow> definedBelow c (engineShafts st')"
    by (auto simp: reachesPop_def)
  have "steps cfg (n + m) st = Inr st'" using n(2) m(1) by (simp add: steps_add)
  then show ?thesis
    unfolding reachesPop_def using n m by (intro exI [of _ "n + m"] exI [of _ st']) simp
qed

lemma final_frame_completes:
  assumes "permutationStack st = fr # rest" and "1 \<le> currentShaft fr"
    and "currentShaft fr + 1 = length (engineShafts st)"
    and "definedBelow (currentShaft fr) (engineShafts st)"
  shows "reachesPop cfg st rest"
proof -
  let ?st0 = "st\<lparr>permutationStack := rest\<rparr>"
  from finalShaft_loop_returns [of "currentShaft fr" ?st0 cfg "availableGears fr" 0] assms(2,3,4)
  obtain st' where l: "finalShaft_loop cfg (currentShaft fr) (availableGears fr) 0 ?st0 = Inr st'"
    and r: "bookkeeping st' = bookkeeping ?st0"
      "length (engineShafts st') = length (engineShafts st)"
      "\<forall>c. definedBelow c (engineShafts st) \<longrightarrow> definedBelow c (engineShafts st')"
    by auto
  have "iterate cfg st = Inr (False, st')"
    using assms(1,3) l by (simp add: iterate_stack iterateShafts_def Let_def)
  then have "steps cfg 1 st = Inr st'" by simp
  then show ?thesis
    unfolding reachesPop_def using r
    by (intro exI [of _ 1] exI [of _ st']) (simp add: bookkeeping_def)
qed

lemma iterateShafts_nonfinal_returns:
  assumes "permutationStack st = fr # rest"
    and "currentShaft fr + 1 < length (engineShafts st)"
  shows "\<exists>b st'. iterateShafts cfg st = Inr (b, st')"
proof -
  have c: "calculatePermutationCount
          (int (length (js_set (engineShafts st) (currentShaft fr) v)) - int (currentShaft fr) - 1) g
        = Some (permCount (nat (int (length (engineShafts st)) - int (currentShaft fr) - 2)) g)"
    for v g
    using assms(2) calculatePermutationCount_returns
      [of "int (length (engineShafts st)) - int (currentShaft fr) - 1" g]
    by (simp add: length_js_set)
  show ?thesis
    using assms
    by (auto simp: iterateShafts_def Let_def c split: prod.splits)
qed


lemma level_completes:
  assumes nxt: "\<And>fr' st' rest'. permutationStack st' = fr' # rest' \<Longrightarrow>
            currentShaft fr' = c + 1 \<Longrightarrow> outputIndex fr' = 0 \<Longrightarrow>
            length (engineShafts st') = S \<Longrightarrow>
            definedBelow (c + 1) (engineShafts st') \<Longrightarrow> reachesPop cfg st' rest'"
    and c: "c + 1 < S"
  shows "permutationStack st = fr # rest \<Longrightarrow> currentShaft fr = c \<Longrightarrow>
         length (engineShafts st) = S \<Longrightarrow>
         outputIndex fr \<le> length (availableGears fr) \<Longrightarrow>
         definedBelow c (engineShafts st) \<Longrightarrow> reachesPop cfg st rest"
proof (induction "(length (availableGears fr) - inputIndex fr) * (length (availableGears fr) + 1)
                    + (length (availableGears fr) - outputIndex fr)"
       arbitrary: fr st rule: less_induct)
  case less
  define g where "g = length (availableGears fr)"
  have nonfinal: "int (currentShaft fr) \<noteq> int (length (engineShafts st)) - 1"
    using c less.prems(2,3) by simp
  obtain b st1 where it: "iterateShafts cfg st = Inr (b, st1)"
    using iterateShafts_nonfinal_returns [OF less.prems(1), of cfg] c less.prems(2,3) by auto
  then have it': "iterate cfg st = Inr (b, st1)"
    using less.prems(1) by (simp add: iterate_stack)
  obtain oi ii where nc: "normalisedCursor fr = (oi, ii)" by (cases "normalisedCursor fr")
  have lt: "currentShaft fr < length (engineShafts st)" using c less.prems(2,3) by simp
  from it less.prems(1) nonfinal nc show ?case
  proof (cases rule: iterateShafts_nonfinal_cases)
    case exhausted
    have "steps cfg 1 st = Inr st1" using it' by simp
    then show ?thesis
      unfolding reachesPop_def using exhausted(2)
      by (intro exI [of _ 1] exI [of _ st1]) simp
  next
    case (skipped xs n)
    let ?fr' = "fr\<lparr>outputIndex := oi + 1, inputIndex := ii\<rparr>"
    have oig: "oi < g" "ii < g"
      using nc skipped(1) by (auto simp: normalisedCursor_def g_def split: if_splits)
    have dec: "(g - ii) * (g + 1) + (g - (oi + 1))
             < (g - inputIndex fr) * (g + 1) + (g - outputIndex fr)"
    proof (cases "outputIndex fr \<ge> g")
      case True
      then have e: "oi = 0" "ii = inputIndex fr + 1"
        using nc by (simp_all add: normalisedCursor_def g_def)
      then have "g - inputIndex fr = Suc (g - ii)" using oig by simp
      then show ?thesis using e oig by simp
    next
      case False
      then have "oi = outputIndex fr" "ii = inputIndex fr"
        using nc by (simp_all add: normalisedCursor_def g_def)
      then show ?thesis using oig by simp
    qed
    have st1: "permutationStack st1 = ?fr' # rest" "length (engineShafts st1) = S"
      "inputGearIndex st1 = inputGearIndex st"
      "\<forall>c. definedBelow c (engineShafts st) \<longrightarrow> definedBelow c (engineShafts st1)"
      using skipped(3,5) lt less.prems(3) by (simp_all add: length_js_set definedBelow_js_set)
    have "reachesPop cfg st1 rest"
      using less.hyps [of ?fr' st1] dec st1 less.prems(2,5) oig
      by (simp add: g_def)
    from reachesPop_step [OF it' this] st1 less.prems(3) show ?thesis by simp
  next
    case (descend xs)
    let ?fr' = "fr\<lparr>outputIndex := oi + 1, inputIndex := ii\<rparr>"
    have oig: "oi < g" "ii < g"
      using nc descend(1) by (auto simp: normalisedCursor_def g_def split: if_splits)
    have dec: "(g - ii) * (g + 1) + (g - (oi + 1))
             < (g - inputIndex fr) * (g + 1) + (g - outputIndex fr)"
    proof (cases "outputIndex fr \<ge> g")
      case True
      then have e: "oi = 0" "ii = inputIndex fr + 1"
        using nc by (simp_all add: normalisedCursor_def g_def)
      then have "g - inputIndex fr = Suc (g - ii)" using oig by simp
      then show ?thesis using e oig by simp
    next
      case False
      then have "oi = outputIndex fr" "ii = inputIndex fr"
        using nc by (simp_all add: normalisedCursor_def g_def)
      then show ?thesis using oig by simp
    qed
    have st1: "length (engineShafts st1) = S" "inputGearIndex st1 = inputGearIndex st"
      "\<forall>c. definedBelow c (engineShafts st) \<longrightarrow> definedBelow c (engineShafts st1)"
      using descend(2,3) lt less.prems(3) by (simp_all add: length_js_set definedBelow_js_set)
    have d1: "definedBelow (c + 1) (engineShafts st1)"
      using descend(2,3) lt less.prems(2,5) definedBelow_js_set_Suc [of c "engineShafts st"]
      by simp
    have "reachesPop cfg st1 (?fr' # rest)"
      using nxt [of st1 _ "?fr' # rest"] descend(3) less.prems(2) st1(1) d1 by simp
    then have "reachesPop cfg st1 rest"
    proof (rule reachesPop_trans)
      fix st2 :: engine
      assume a: "permutationStack st2 = ?fr' # rest"
        "length (engineShafts st2) = length (engineShafts st1)"
        "inputGearIndex st2 = inputGearIndex st1"
        "\<forall>c. definedBelow c (engineShafts st1) \<longrightarrow> definedBelow c (engineShafts st2)"
      have "definedBelow c (engineShafts st2)"
        using a(4) st1(3) less.prems(5) by blast
      then show "reachesPop cfg st2 rest"
        using less.hyps [of ?fr' st2] dec a st1 less.prems(2) oig
        by (simp add: g_def)
    qed
    from reachesPop_step [OF it' this] st1 less.prems(3) show ?thesis by simp
  qed
qed

lemma frame_completes:
  "permutationStack st = fr # rest \<Longrightarrow> currentShaft fr = c \<Longrightarrow> 1 \<le> c \<Longrightarrow> c < S \<Longrightarrow>
   length (engineShafts st) = S \<Longrightarrow> outputIndex fr = 0 \<Longrightarrow>
   definedBelow c (engineShafts st) \<Longrightarrow> reachesPop cfg st rest"
proof (induction "S - c" arbitrary: c st fr rest rule: less_induct)
  case less
  show ?case
  proof (cases "c + 1 = S")
    case True
    with less.prems show ?thesis
      by (intro final_frame_completes [of st fr rest]) simp_all
  next
    case False
    with less.prems(4) have c: "c + 1 < S" by simp
    show ?thesis
    proof (rule level_completes [where c = c and S = S and fr = fr])
      fix fr' :: frame and st' :: engine and rest' :: "frame list"
      assume "permutationStack st' = fr' # rest'" "currentShaft fr' = c + 1"
        "outputIndex fr' = 0"
        "length (engineShafts st') = S" "definedBelow (c + 1) (engineShafts st')"
      then show "reachesPop cfg st' rest'"
        using less.hyps [of "c + 1" st' fr' rest'] c by simp
    qed (use less.prems c in simp_all)
  qed
qed


lemma run_completes:
  assumes S: "2 \<le> S"
  shows "permutationStack st = [] \<Longrightarrow> length (engineShafts st) = S \<Longrightarrow>
         \<exists>n st'. steps cfg n st = Inr st' \<and> iterate cfg st' = Inr (True, st')"
proof (induction "length (firstGearSet cfg) - inputGearIndex st" arbitrary: st rule: less_induct)
  case less
  show ?case
  proof (cases "inputGearIndex st < length (firstGearSet cfg)")
    case False
    then have "iterate cfg st = Inr (True, st)"
      using less.prems(1) by (simp add: iterate_def Let_def firstGearSet_def)
    then show ?thesis by (intro exI [of _ 0] exI [of _ st]) simp
  next
    case True
    let ?pool = "if sharedInputGearSet cfg
                 then remove1 (firstGearSet cfg ! inputGearIndex st) (changeGearSet cfg)
                 else changeGearSet cfg"
    let ?fr = "\<lparr>availableGears = ?pool, currentShaft = 1, inputIndex = 0, outputIndex = 0\<rparr>"
    let ?st1 = "st\<lparr>engineShafts := js_set (engineShafts st) 0
                  (Shaft (firstGearSet cfg ! inputGearIndex st) 0 (inputAdjacentSize cfg)),
               permutationStack := [?fr], inputGearIndex := inputGearIndex st + 1\<rparr>"
    have it: "iterate cfg st = iterateShafts cfg ?st1"
      using True less.prems(1) by (simp add: iterate_def Let_def firstGearSet_def)
    have pos: "0 < length (engineShafts st)" using S less.prems(2) by linarith
    then have len: "length (engineShafts ?st1) = S"
      using less.prems(2) by (simp add: length_js_set)
    have "definedBelow 0 (engineShafts st)" by (simp add: definedBelow_def)
    from definedBelow_js_set_Suc [OF this pos]
    have d: "definedBelow 1 (engineShafts ?st1)" by simp
    have "reachesPop cfg ?st1 []"
      using S by (intro frame_completes [of ?st1 ?fr "[]" 1 S] len d) simp_all
    then obtain n st2 where n: "0 < n" "steps cfg n ?st1 = Inr st2" "permutationStack st2 = []"
        "length (engineShafts st2) = S" "inputGearIndex st2 = inputGearIndex st + 1"
      using len by (auto simp: reachesPop_def)
    from n(1) obtain m where m: "n = Suc m" by (cases n) auto
    have "iterate cfg ?st1 = iterate cfg st" using it by (simp add: iterate_stack)
    then have s1: "steps cfg n st = Inr st2" using n(2) m by simp
    have "length (firstGearSet cfg) - inputGearIndex st2
            < length (firstGearSet cfg) - inputGearIndex st"
      using True n(5) by simp
    from less.hyps [OF this n(3,4)] obtain k st' where
      k: "steps cfg k st2 = Inr st'" "iterate cfg st' = Inr (True, st')"
      by blast
    have "steps cfg (n + k) st = Inr st'" using s1 k(1) by (simp add: steps_add)
    with k(2) show ?thesis by blast
  qed
qed

lemma setup_shape:
  "setupCalculation cfg ts = Inr st \<Longrightarrow>
   permutationStack st = [] \<and> length (engineShafts st) = nat (shaftCount cfg)"
  by (auto simp: setupCalculation_def Let_def split: if_splits option.splits)

lemma setup_returns:
  assumes "2 \<le> shaftCount cfg" and "shaftCount cfg \<le> 4294967295"
  shows "\<exists>st. setupCalculation cfg ts = Inr st"
proof -
  have "int (length (replicate (nat (shaftCount cfg)) (None :: shaft option))) - 1 \<ge> 1"
    using assms(1) by simp
  from calculatePermutationCount_returns [OF this]
  show ?thesis using assms by (simp add: setupCalculation_def Let_def)
qed

text \<open>
  Claim C1. For a configuration of at least two shafts (and no more than an array
  can hold), \<open>setupCalculation\<close> on an engine with no results succeeds; the engine
  then reports completion after some number of calls of \<open>iterate\<close>, none of which
  raises an exception; and whenever it reports completion, the number of gear trains
  in the results equals \<open>foundSolutions\<close>, and found plus skipped plus discarded
  equals the permutation count computed at setup. (The gear pools need not be
  ascending, non-empty or positive for this.)
\<close>

theorem counters_at_completion:
  assumes "2 \<le> shaftCount cfg" and "shaftCount cfg \<le> 4294967295"
  shows "\<exists>st0. setupCalculation cfg [] = Inr st0
       \<and> (\<exists>n st. steps cfg n st0 = Inr st \<and> iterate cfg st = Inr (True, st))
       \<and> (\<forall>n st st'. steps cfg n st0 = Inr st \<longrightarrow> iterate cfg st = Inr (True, st') \<longrightarrow>
             int (length (gearTrains st')) = foundSolutions st'
             \<and> foundSolutions st' + skippedSolutions st' + discardedSolutions st'
                 = permutationCount st')"
proof -
  obtain st0 where st0: "setupCalculation cfg [] = Inr st0"
    using setup_returns [OF assms] by blast
  have "2 \<le> nat (shaftCount cfg)" using assms(1) by simp
  from run_completes [OF this, of st0 cfg] setup_shape [OF st0]
  have a: "\<exists>n st. steps cfg n st0 = Inr st \<and> iterate cfg st = Inr (True, st)" by simp
  have b: "int (length (gearTrains st')) = foundSolutions st'
       \<and> foundSolutions st' + skippedSolutions st' + discardedSolutions st'
           = permutationCount st'"
    if s: "steps cfg n st0 = Inr st" and i: "iterate cfg st = Inr (True, st')" for n st st'
  proof -
    from iterate_True [OF i] have e: "st' = st"
      and d: "length (firstGearSet cfg) \<le> inputGearIndex st" "permutationStack st = []"
      by (simp_all add: firstGearSet_def)
    from steps_countInv [OF s setup_countInv [OF assms(1) st0]]
    show ?thesis
      using e d by (simp add: countInv_def Let_def pendingStack_def settled_def)
  qed
  from st0 a b show ?thesis by blast
qed

theorem counters_at_completion_witness:
  "\<exists>st. (2::int) \<le> shaftCount demoSettings
      \<and> shaftCount demoSettings \<le> 4294967295
      \<and> setupCalculation demoSettings [] = Inr demoStart
      \<and> steps demoSettings 3 demoStart = Inr st
      \<and> iterate demoSettings st = Inr (True, st)
      \<and> length (gearTrains st) = 5 \<and> foundSolutions st = 5
      \<and> foundSolutions st + skippedSolutions st + discardedSolutions st = 6
      \<and> permutationCount st = 6"
proof -
  have two: "2 \<le> shaftCount demoSettings" "shaftCount demoSettings \<le> 4294967295"
    by (simp_all add: demoSettings_def)
  have "case steps demoSettings 3 demoStart of
          Inl e \<Rightarrow> False
        | Inr st \<Rightarrow> iterate demoSettings st = Inr (True, st) \<and> foundSolutions st = 5
                     \<and> permutationCount st = 6"
    by code_simp
  then obtain st where st: "steps demoSettings 3 demoStart = Inr st"
      "iterate demoSettings st = Inr (True, st)" "foundSolutions st = 5"
      "permutationCount st = 6"
    by (auto split: sum.splits)
  from counters_at_completion [OF two] demo_setup st(1,2)
  have "int (length (gearTrains st)) = foundSolutions st
      \<and> foundSolutions st + skippedSolutions st + discardedSolutions st = permutationCount st"
    by auto
  with two demo_setup st show ?thesis by auto
qed

subsection \<open>Repeated tooth counts\<close>

text \<open>
  Claim C4 fails on the code. With two shafts and the input gear drawn from the
  change gears 20, 20 and 30, the run completes after three calls with five trains,
  and the trains 20:20 and 20:30 are there twice: \<open>iterate\<close> starts a search from
  each of the two gears of 20 teeth.
\<close>

theorem repeated_input_gear_gives_duplicate_trains:
  "\<exists>st. setupCalculation demoSettings [] = Inr demoStart
      \<and> steps demoSettings 3 demoStart = Inr st
      \<and> iterate demoSettings st = Inr (True, st)
      \<and> map shafts (gearTrains st)
          = [[Shaft 20 0 0, Shaft 20 0 0], [Shaft 20 0 0, Shaft 30 0 0],
             [Shaft 20 0 0, Shaft 20 0 0], [Shaft 20 0 0, Shaft 30 0 0],
             [Shaft 30 0 0, Shaft 20 0 0]]
      \<and> \<not> distinct (map shafts (gearTrains st))"
proof -
  have "case steps demoSettings 3 demoStart of
          Inl e \<Rightarrow> False
        | Inr st \<Rightarrow> iterate demoSettings st = Inr (True, st)
            \<and> map shafts (gearTrains st)
                = [[Shaft 20 0 0, Shaft 20 0 0], [Shaft 20 0 0, Shaft 30 0 0],
                   [Shaft 20 0 0, Shaft 20 0 0], [Shaft 20 0 0, Shaft 30 0 0],
                   [Shaft 30 0 0, Shaft 20 0 0]]
            \<and> \<not> distinct (map shafts (gearTrains st))"
    by code_simp
  then show ?thesis
    using demo_setup by (auto split: sum.splits)
qed

end
